theory Spec2Isabelle
  imports Main "HOL-Library.AList"
begin


section \<open>Data model\<close>

text \<open>
  The repository holds one GitHub action in two near-identical variants: the single-schema
  variant (\<^verbatim>\<open>src/main.ts\<close>, one \<^verbatim>\<open>merkle-tree.json\<close> per month) and the dual-schema
  variant (two token files per month, \<^verbatim>\<open>merkle-tree-veAUXO.json\<close> and
  \<^verbatim>\<open>merkle-tree-xAUXO.json\<close>). Constants of the dual-schema variant carry the suffix
  \<open>_dual\<close> where the two files use the same name.

  A JavaScript object used as a dictionary is an association list of its own enumerable
  properties, in the order \<^verbatim>\<open>Object.entries\<close> lists them; such a list stands for an object
  only when its keys are pairwise distinct. A list built by the program keeps the order of
  insertion; JavaScript moves keys that are array indices to the front. The order of a list
  is never part of a statement.

  A read \<^verbatim>\<open>o[k]\<close> on an object created by \<^verbatim>\<open>{}\<close> looks among the own properties and then
  along the prototype chain, that is in \<^verbatim>\<open>Object.prototype\<close>. The loops below therefore carry,
  next to the object they fill, the list \<open>inherited\<close> of the names that resolve in
  \<^verbatim>\<open>Object.prototype\<close>: at the start its twelve member names, later also the names that the
  program itself stores there (an assignment whose target was read as \<^verbatim>\<open>o['__proto__']\<close>).
  Every value found under such a name is a function or an object, hence truthy.

  Two things are followed exactly: the own properties of the objects that the program
  creates, and \<open>inherited\<close>. An assignment that lands on another inherited object (a
  built-in function, a value stored in \<^verbatim>\<open>Object.prototype\<close>) changes neither. Such an
  assignment can also throw in JavaScript (a read-only property of a function, the prototype
  of \<^verbatim>\<open>Object.prototype\<close> itself); these throws are not part of the embedding.

  \<open>js_object\<close> says that a list stands for an object none of whose keys resolves in
  \<^verbatim>\<open>Object.prototype\<close> as the program starts.

  The type \<^verbatim>\<open>number\<close> is a type parameter \<open>'n\<close>: the program stores and copies numbers
  and never computes with them.
\<close>

definition Object_prototype_names :: "string list" where
  "Object_prototype_names =
     [''constructor'', ''__proto__'', ''hasOwnProperty'', ''isPrototypeOf'',
      ''propertyIsEnumerable'', ''toLocaleString'', ''toString'', ''valueOf'',
      ''__defineGetter__'', ''__defineSetter__'', ''__lookupGetter__'', ''__lookupSetter__'']"

definition js_object :: "(string \<times> 'v) list \<Rightarrow> bool" where
  "js_object ps \<longleftrightarrow>
     distinct (map fst ps) \<and> (\<forall>k \<in> set (map fst ps). k \<notin> set Object_prototype_names)"

text \<open>
  The test \<^verbatim>\<open>!o[k]\<close> on an object \<open>o\<close> created by the program, all of whose values are
  objects: \<open>k\<close> is neither an own property nor a name that resolves in
  \<^verbatim>\<open>Object.prototype\<close>.
\<close>

definition not_found :: "(string \<times> 'v) list \<Rightarrow> string list \<Rightarrow> string \<Rightarrow> bool" where
  "not_found ps inherited k \<longleftrightarrow> map_of ps k = None \<and> k \<notin> set inherited"

text \<open>
  The assignment \<^verbatim>\<open>o[k] = v\<close> of an object \<open>v\<close> to an object \<open>o\<close> created by the program.
  It adds or replaces the own property \<open>k\<close>; for \<open>k\<close> = \<^verbatim>\<open>__proto__\<close> it runs the setter
  inherited from \<^verbatim>\<open>Object.prototype\<close>, which replaces the prototype of \<open>o\<close> and adds no
  property. The program never tests a key on an object whose prototype it has replaced:
  the objects it tests are never assigned under \<^verbatim>\<open>__proto__\<close>, that name being found in
  every one of them.
\<close>

definition set_property :: "string \<Rightarrow> 'v \<Rightarrow> (string \<times> 'v) list \<Rightarrow> (string \<times> 'v) list" where
  "set_property k v ps = (if k = ''__proto__'' then ps else AList.update k v ps)"

subsection \<open>Single-schema variant\<close>

record Metadata =
  reason :: string

record 'n Claim =
  accountIndex :: 'n
  amount :: string
  metadata :: Metadata
  windowIndex :: 'n
  proof' :: "string list"

record 'n MerkleTree =
  id' :: 'n
  rewardToken :: string
  tree_windowIndex :: 'n
  totalRewardsDistributed :: string
  merkleRoot :: string
  claims :: "(string \<times> 'n Claim) list"

type_synonym 'n MerkleTreesByMonth = "(string \<times> 'n MerkleTree) list"

type_synonym 'n MerkleTreesByUser = "(string \<times> (string \<times> 'n Claim) list) list"

subsection \<open>Dual-schema variant\<close>

record 'n Recipient =
  r_windowIndex :: 'n
  r_accountIndex :: 'n
  rewards :: string
  r_proof :: "string list"

record 'n AggregateRewards =
  address :: string
  token :: string
  decimals :: 'n
  agg_amount :: string
  original_amount :: string
  pro_rata :: string
  non_active_pro_rata :: string
  redistributed_total :: string
  redistributed_to_stakers :: string
  redistributed_transferred :: string
  total_tax :: string

record 'n MerkleTree_dual =
  d_windowIndex :: 'n
  chainId :: 'n
  aggregateRewards :: "'n AggregateRewards"
  recipients :: "(string \<times> 'n Recipient) list"
  root :: string

text \<open>
  The value under a month is an object with the keys \<^verbatim>\<open>veAUXO\<close> and \<^verbatim>\<open>xAUXO\<close>; the
  reshape walks it with \<^verbatim>\<open>Object.entries\<close>, so it is an association list as well.
\<close>

type_synonym 'n MerkleTreesByMonth_dual = "(string \<times> (string \<times> 'n MerkleTree_dual) list) list"

type_synonym 'n MerkleTreesByUser_dual =
  "(string \<times> (string \<times> (string \<times> 'n Recipient) list) list) list"


section \<open>Thrown values\<close>

text \<open>
  A value that reaches the \<^verbatim>\<open>catch\<close> clause is either an instance of \<^verbatim>\<open>Error\<close>, which
  carries a message, or some other value. The \<^verbatim>\<open>TypeError\<close>s the engine raises on a
  property access through \<^verbatim>\<open>null\<close> or \<^verbatim>\<open>undefined\<close> are instances of \<^verbatim>\<open>Error\<close>; their
  messages are written in the wording of V8.
\<close>

datatype thrown = Error (message: string) | NonError

definition TypeError_read :: "string \<Rightarrow> string \<Rightarrow> thrown" where
  "TypeError_read base property =
     Error (''Cannot read properties of '' @ base @ '' (reading '' @ [CHR 0x27] @ property
            @ [CHR 0x27] @ '')'')"

definition TypeError_set :: "string \<Rightarrow> string \<Rightarrow> thrown" where
  "TypeError_set base property =
     Error (''Cannot set properties of '' @ base @ '' (setting '' @ [CHR 0x27] @ property
            @ [CHR 0x27] @ '')'')"


section \<open>The fetched tree\<close>

text \<open>
  \<^verbatim>\<open>QueryResult\<close>, that is \<^verbatim>\<open>merkleTrees.repository.object.entries\<close>. The query selects
  the nested \<^verbatim>\<open>entries\<close> under \<^verbatim>\<open>... on Tree\<close>, so the \<^verbatim>\<open>object\<close> of a top-level entry
  that is not a directory arrives without them: it is \<^verbatim>\<open>{}\<close> for a blob and \<^verbatim>\<open>null\<close>
  for a submodule. The declared type leaves both out; the builder meets them at run time.
  A file inside a directory is kept at its declared type, a name and a text.
\<close>

record tree_file =
  file_name :: string
  file_text :: string

datatype entry_object =
    Object_null
  | Object_without_entries
  | Object_entries "tree_file list"

record tree_entry =
  entry_name :: string
  entry_type :: string
  entry_object :: entry_object

type_synonym QueryResult = "tree_entry list"


section \<open>The month index builder\<close>

subsection \<open>Single-schema variant (\<^verbatim>\<open>main.ts\<close>, lines 102 to 113)\<close>

text \<open>
  The callback of the inner \<^verbatim>\<open>map\<close>, run over the files of one directory. \<open>parse\<close> is
  \<^verbatim>\<open>JSON.parse\<close> followed by the cast to \<^verbatim>\<open>MerkleTree\<close>; it throws on malformed text.
  The source does not check the shape of the parsed value; the embedding takes it at the
  declared type, so it covers the files whose text has that shape.
\<close>

fun month_files ::
  "(string \<Rightarrow> thrown + 'n MerkleTree) \<Rightarrow> string \<Rightarrow> 'n MerkleTreesByMonth \<Rightarrow> tree_file list
     \<Rightarrow> thrown + 'n MerkleTreesByMonth" where
  "month_files parse date byMonth [] = Inr byMonth"
| "month_files parse date byMonth (el # els) =
     (if file_name el = ''merkle-tree.json'' then
        (case parse (file_text el) of
           Inl e \<Rightarrow> Inl e
         | Inr merkleTree \<Rightarrow> month_files parse date (set_property date merkleTree byMonth) els)
      else month_files parse date byMonth els)"

text \<open>
  The callback of the outer \<^verbatim>\<open>map\<close>: \<^verbatim>\<open>entry.object.entries.map(...)\<close> reads
  \<^verbatim>\<open>entries\<close> off \<^verbatim>\<open>entry.object\<close> and \<^verbatim>\<open>map\<close> off the result.
\<close>

definition entry_files :: "tree_entry \<Rightarrow> thrown + tree_file list" where
  "entry_files entry =
     (case entry_object entry of
        Object_null \<Rightarrow> Inl (TypeError_read ''null'' ''entries'')
      | Object_without_entries \<Rightarrow> Inl (TypeError_read ''undefined'' ''map'')
      | Object_entries els \<Rightarrow> Inr els)"

fun entries_loop ::
  "(string \<Rightarrow> thrown + 'n MerkleTree) \<Rightarrow> 'n MerkleTreesByMonth \<Rightarrow> tree_entry list
     \<Rightarrow> thrown + 'n MerkleTreesByMonth" where
  "entries_loop parse byMonth [] = Inr byMonth"
| "entries_loop parse byMonth (entry # rest) =
     (case entry_files entry of
        Inl e \<Rightarrow> Inl e
      | Inr els \<Rightarrow>
         (case month_files parse (entry_name entry) byMonth els of
            Inl e \<Rightarrow> Inl e
          | Inr byMonth' \<Rightarrow> entries_loop parse byMonth' rest))"

definition merkleTreesByMonth ::
  "(string \<Rightarrow> thrown + 'n MerkleTree) \<Rightarrow> QueryResult \<Rightarrow> thrown + 'n MerkleTreesByMonth" where
  "merkleTreesByMonth parse merkleTrees = entries_loop parse [] merkleTrees"

subsection \<open>Dual-schema variant (lines 116 to 132)\<close>

text \<open>
  One of the two \<^verbatim>\<open>if\<close> blocks of the inner callback:
  \<^verbatim>\<open>if (el.name === fname) { const merkleTree = JSON.parse(el.object.text);
  merkleTreesByMonth[date][tok] = merkleTree }\<close>.
  The assignment reads \<^verbatim>\<open>merkleTreesByMonth[date]\<close> and sets a property of the result.
  Where the name of the month resolves neither among the own properties nor in
  \<^verbatim>\<open>Object.prototype\<close> the result is \<^verbatim>\<open>undefined\<close> and the assignment throws. Where it
  resolves in \<^verbatim>\<open>Object.prototype\<close> the parsed file is stored on what was found there, and the
  index is left as it was; for the month \<^verbatim>\<open>__proto__\<close> that is \<^verbatim>\<open>Object.prototype\<close> itself,
  which gains the name \<open>tok\<close>.
\<close>

definition token_file ::
  "(string \<Rightarrow> thrown + 'n MerkleTree_dual) \<Rightarrow> string \<Rightarrow> string \<Rightarrow> string \<Rightarrow> tree_file
     \<Rightarrow> 'n MerkleTreesByMonth_dual \<times> string list
     \<Rightarrow> thrown + 'n MerkleTreesByMonth_dual \<times> string list" where
  "token_file parse fname tok date el st =
     (let byMonth = fst st; inherited = snd st in
      if file_name el = fname then
        (case parse (file_text el) of
           Inl e \<Rightarrow> Inl e
         | Inr merkleTree \<Rightarrow>
            (case map_of byMonth date of
               Some _ \<Rightarrow>
                 Inr (AList.map_entry date (set_property tok merkleTree) byMonth, inherited)
             | None \<Rightarrow>
                 if date \<in> set inherited then
                   Inr (byMonth,
                        if date = ''__proto__'' \<and> tok \<noteq> ''__proto__'' then tok # inherited
                        else inherited)
                 else Inl (TypeError_set ''undefined'' tok)))
      else Inr st)"

fun month_files_dual ::
  "(string \<Rightarrow> thrown + 'n MerkleTree_dual) \<Rightarrow> string
     \<Rightarrow> 'n MerkleTreesByMonth_dual \<times> string list
     \<Rightarrow> tree_file list \<Rightarrow> thrown + 'n MerkleTreesByMonth_dual \<times> string list" where
  "month_files_dual parse date st [] = Inr st"
| "month_files_dual parse date st (el # els) =
     (case token_file parse ''merkle-tree-veAUXO.json'' ''veAUXO'' date el st of
        Inl e \<Rightarrow> Inl e
      | Inr st1 \<Rightarrow>
         (case token_file parse ''merkle-tree-xAUXO.json'' ''xAUXO'' date el st1 of
            Inl e \<Rightarrow> Inl e
          | Inr st2 \<Rightarrow> month_files_dual parse date st2 els))"

fun entries_loop_dual ::
  "(string \<Rightarrow> thrown + 'n MerkleTree_dual) \<Rightarrow> 'n MerkleTreesByMonth_dual \<times> string list
     \<Rightarrow> tree_entry list \<Rightarrow> thrown + 'n MerkleTreesByMonth_dual \<times> string list" where
  "entries_loop_dual parse st [] = Inr st"
| "entries_loop_dual parse st (entry # rest) =
     (case entry_files entry of
        Inl e \<Rightarrow> Inl e
      | Inr els \<Rightarrow>
         (case month_files_dual parse (entry_name entry) st els of
            Inl e \<Rightarrow> Inl e
          | Inr st' \<Rightarrow> entries_loop_dual parse st' rest))"

text \<open>
  The index starts as \<^verbatim>\<open>{}\<close>, with the member names of \<^verbatim>\<open>Object.prototype\<close> inherited.
  The result is the index; the names stored in \<^verbatim>\<open>Object.prototype\<close> meanwhile do not
  matter to the reshape that follows, since the index it receives has no entry
  (\<open>merkleTreesByMonth_dual_never_fills\<close> below).
\<close>

definition merkleTreesByMonth_dual ::
  "(string \<Rightarrow> thrown + 'n MerkleTree_dual) \<Rightarrow> QueryResult
     \<Rightarrow> thrown + 'n MerkleTreesByMonth_dual" where
  "merkleTreesByMonth_dual parse merkleTrees =
     (case entries_loop_dual parse ([], Object_prototype_names) merkleTrees of
        Inl e \<Rightarrow> Inl e
      | Inr st \<Rightarrow> Inr (fst st))"


section \<open>The reshape engine\<close>

subsection \<open>Single-schema variant (\<^verbatim>\<open>main.ts\<close>, lines 124 to 132)\<close>

text \<open>
  The body of the inner loop:
  \<^verbatim>\<open>if (!merkleTreesByUser[user]) { merkleTreesByUser[user] = {} }\<close> followed by
  \<^verbatim>\<open>merkleTreesByUser[user][date] = claim\<close>. The state is the index together with the
  names inherited from \<^verbatim>\<open>Object.prototype\<close>. When \<open>user\<close> is an own property (before the
  test or by it), the claim is assigned to the object stored there. Otherwise \<open>user\<close>
  resolves in \<^verbatim>\<open>Object.prototype\<close>: no object is created, the claim is assigned to what was
  found, and the index does not receive it; for the user \<^verbatim>\<open>__proto__\<close> what was found is
  \<^verbatim>\<open>Object.prototype\<close> itself, which gains the name \<open>date\<close>.
\<close>

fun assign_claim ::
  "string \<Rightarrow> string \<Rightarrow> 'c \<Rightarrow> (string \<times> (string \<times> 'c) list) list \<times> string list
     \<Rightarrow> (string \<times> (string \<times> 'c) list) list \<times> string list" where
  "assign_claim user date claim (byUser, inherited) =
     (let byUser1 =
            (if not_found byUser inherited user then set_property user [] byUser else byUser)
      in case map_of byUser1 user of
           Some _ \<Rightarrow> (AList.map_entry user (set_property date claim) byUser1, inherited)
         | None \<Rightarrow>
             (byUser1,
              if user = ''__proto__'' \<and> date \<noteq> ''__proto__'' then date # inherited
              else inherited))"

text \<open>\<^verbatim>\<open>for (const [user, claim] of Object.entries(merkleTree.claims))\<close>\<close>

fun claims_loop ::
  "string \<Rightarrow> (string \<times> (string \<times> 'c) list) list \<times> string list \<Rightarrow> (string \<times> 'c) list
     \<Rightarrow> (string \<times> (string \<times> 'c) list) list \<times> string list" where
  "claims_loop date st [] = st"
| "claims_loop date st ((user, claim) # rest) =
     claims_loop date (assign_claim user date claim st) rest"

text \<open>\<^verbatim>\<open>for (const [date, merkleTree] of Object.entries(merkleTreesByMonth))\<close>\<close>

fun months_loop ::
  "'n MerkleTreesByUser \<times> string list \<Rightarrow> 'n MerkleTreesByMonth
     \<Rightarrow> 'n MerkleTreesByUser \<times> string list" where
  "months_loop st [] = st"
| "months_loop st ((date, merkleTree) # rest) =
     months_loop (claims_loop date st (claims merkleTree)) rest"

text \<open>
  \<^verbatim>\<open>const merkleTreesByUser = {}\<close>, then the loops. The builder of this variant stores
  nothing in \<^verbatim>\<open>Object.prototype\<close>, so the inherited names are its member names.
\<close>

definition merkleTreesByUser :: "'n MerkleTreesByMonth \<Rightarrow> 'n MerkleTreesByUser" where
  "merkleTreesByUser byMonth = fst (months_loop ([], Object_prototype_names) byMonth)"

subsection \<open>Dual-schema variant (lines 164 to 179)\<close>

text \<open>
  The body of the innermost loop:
  \<^verbatim>\<open>if (!merkleTreesByUser[user]) { merkleTreesByUser[user] = {} }\<close>,
  \<^verbatim>\<open>if (!merkleTreesByUser[user][token]) { merkleTreesByUser[user][token] = {} }\<close> and
  \<^verbatim>\<open>merkleTreesByUser[user][token][date] = recipient\<close>.
  When \<open>user\<close> is an own property, the second test reads the object stored there: a token
  that is an own property of it (before the test or by it) receives the recipient; a token
  that resolves in \<^verbatim>\<open>Object.prototype\<close> creates nothing and sends the recipient to what was
  found, which for the token \<^verbatim>\<open>__proto__\<close> is \<^verbatim>\<open>Object.prototype\<close> itself, gaining the
  name \<open>date\<close>. When \<open>user\<close> resolves in \<^verbatim>\<open>Object.prototype\<close>, nothing reaches the index; for
  the user \<^verbatim>\<open>__proto__\<close> the second test reads \<^verbatim>\<open>Object.prototype\<close> itself and stores a new
  object there under a token that it does not hold.
\<close>

fun assign_recipient ::
  "string \<Rightarrow> string \<Rightarrow> string \<Rightarrow> 'n Recipient \<Rightarrow> 'n MerkleTreesByUser_dual \<times> string list
     \<Rightarrow> 'n MerkleTreesByUser_dual \<times> string list" where
  "assign_recipient user tok date recipient (byUser, inherited) =
     (let byUser1 =
            (if not_found byUser inherited user then set_property user [] byUser else byUser)
      in case map_of byUser1 user of
           Some byToken \<Rightarrow>
             (let byToken1 =
                    (if not_found byToken inherited tok then set_property tok [] byToken
                     else byToken)
              in case map_of byToken1 tok of
                   Some _ \<Rightarrow>
                     (AList.map_entry user
                        (\<lambda>_. AList.map_entry tok (set_property date recipient) byToken1)
                        byUser1,
                      inherited)
                 | None \<Rightarrow>
                     (byUser1,
                      if tok = ''__proto__'' \<and> date \<noteq> ''__proto__'' then date # inherited
                      else inherited))
         | None \<Rightarrow>
             (byUser1,
              if user = ''__proto__'' \<and> tok \<notin> set inherited then tok # inherited
              else inherited))"

text \<open>\<^verbatim>\<open>for (const [user, recipient] of Object.entries(merkleTree.recipients))\<close>\<close>

fun recipients_loop ::
  "string \<Rightarrow> string \<Rightarrow> 'n MerkleTreesByUser_dual \<times> string list
     \<Rightarrow> (string \<times> 'n Recipient) list \<Rightarrow> 'n MerkleTreesByUser_dual \<times> string list" where
  "recipients_loop date tok st [] = st"
| "recipients_loop date tok st ((user, recipient) # rest) =
     recipients_loop date tok (assign_recipient user tok date recipient st) rest"

text \<open>\<^verbatim>\<open>for (const [token, merkleTree] of Object.entries(merkleTreesByToken))\<close>\<close>

fun tokens_loop ::
  "string \<Rightarrow> 'n MerkleTreesByUser_dual \<times> string list
     \<Rightarrow> (string \<times> 'n MerkleTree_dual) list \<Rightarrow> 'n MerkleTreesByUser_dual \<times> string list" where
  "tokens_loop date st [] = st"
| "tokens_loop date st ((tok, merkleTree) # rest) =
     tokens_loop date (recipients_loop date tok st (recipients merkleTree)) rest"

text \<open>\<^verbatim>\<open>for (const [date, merkleTreesByToken] of Object.entries(merkleTreesByMonth))\<close>\<close>

fun months_loop_dual ::
  "'n MerkleTreesByUser_dual \<times> string list \<Rightarrow> 'n MerkleTreesByMonth_dual
     \<Rightarrow> 'n MerkleTreesByUser_dual \<times> string list" where
  "months_loop_dual st [] = st"
| "months_loop_dual st ((date, merkleTreesByToken) # rest) =
     months_loop_dual (tokens_loop date st merkleTreesByToken) rest"

definition merkleTreesByUser_dual :: "'n MerkleTreesByMonth_dual \<Rightarrow> 'n MerkleTreesByUser_dual" where
  "merkleTreesByUser_dual byMonth =
     fst (months_loop_dual ([], Object_prototype_names) byMonth)"


section \<open>The write interface and the remote repository\<close>

text \<open>
  The five calls of \<^verbatim>\<open>octokit.rest.git\<close> that the program makes, with their arguments
  in the order of the source: \<open>GetRef owner repo ref\<close>,
  \<open>CreateBlob owner repo content encoding\<close>, \<open>CreateTree owner repo tree base_tree\<close>,
  \<open>CreateCommit owner repo message tree parents\<close> and \<open>UpdateRef owner repo ref sha\<close>.
\<close>

record tree_item =
  path :: string
  mode :: string
  type' :: string
  sha :: string

datatype git_call =
    GetRef string string string
  | CreateBlob string string string string
  | CreateTree string string "tree_item list" string
  | CreateCommit string string string string "string list"
  | UpdateRef string string string string

text \<open>
  The remote side is not part of the repository. It is modelled as far as the program
  observes it: the references, keyed by owner, repository and reference name, and the log
  of the calls received, each with its response. A call that fails has no effect.
  \<^verbatim>\<open>getRef\<close> fails on a reference that does not exist; the three \<^verbatim>\<open>create\<close> calls add a
  content-addressed object and return its hash; \<^verbatim>\<open>updateRef\<close> is the only call that moves
  a reference.
\<close>

record remote =
  refs :: "((string \<times> string \<times> string) \<times> string) list"
  log :: "(git_call \<times> (thrown + string)) list"

text \<open>
  The client returned by \<^verbatim>\<open>github.getOctokit\<close>: the tree query, the failure (transport,
  authorization, server) that a call meets, if any, and the hash the server gives to a
  created object.
\<close>

record octokit =
  graphql :: "string \<Rightarrow> string \<Rightarrow> thrown + QueryResult"
  fault :: "git_call \<Rightarrow> thrown option"
  new_sha :: "git_call \<Rightarrow> string"

definition response :: "octokit \<Rightarrow> remote \<Rightarrow> git_call \<Rightarrow> thrown + string" where
  "response client w call =
     (case fault client call of
        Some e \<Rightarrow> Inl e
      | None \<Rightarrow>
         (case call of
            GetRef owner repo ref \<Rightarrow>
              (case map_of (refs w) (owner, repo, ref) of
                 None \<Rightarrow> Inl (Error ''Not Found'')
               | Some tip \<Rightarrow> Inr tip)
          | UpdateRef owner repo ref commit \<Rightarrow>
              (case map_of (refs w) (owner, repo, ref) of
                 None \<Rightarrow> Inl (Error ''Reference does not exist'')
               | Some _ \<Rightarrow> Inr commit)
          | _ \<Rightarrow> Inr (new_sha client call)))"

definition effect :: "git_call \<Rightarrow> thrown + string \<Rightarrow> remote \<Rightarrow> remote" where
  "effect call result w =
     (case (call, result) of
        (UpdateRef owner repo ref commit, Inr _) \<Rightarrow>
          w\<lparr>refs := AList.update (owner, repo, ref) commit (refs w)\<rparr>
      | _ \<Rightarrow> w)"

definition request :: "octokit \<Rightarrow> git_call \<Rightarrow> remote \<Rightarrow> (thrown + string) \<times> remote" where
  "request client call w =
     (let result = response client w call
      in (result, (effect call result w)\<lparr>log := log w @ [(call, result)]\<rparr>))"


section \<open>The publisher (\<^verbatim>\<open>main.ts\<close>, lines 138 to 199; lines 185 to 246 of the dual variant)\<close>

text \<open>
  The five awaited calls, the same text in both variants. Each result feeds the next call;
  a rejected promise leaves the \<^verbatim>\<open>try\<close> block at once. \<open>content\<close> is
  \<^verbatim>\<open>JSON.stringify(merkleTreesByUser, null, 2)\<close>.
\<close>

definition publish ::
  "octokit \<Rightarrow> string \<Rightarrow> string \<Rightarrow> string \<Rightarrow> string \<Rightarrow> remote \<Rightarrow> (thrown + unit) \<times> remote" where
  "publish client owner repo branchInput content w =
     (case request client (GetRef owner repo (''heads/'' @ branchInput)) w of
        (Inl e, w1) \<Rightarrow> (Inl e, w1)
      | (Inr currentBranch, w1) \<Rightarrow>
     (case request client (CreateBlob owner repo content ''utf-8'') w1 of
        (Inl e, w2) \<Rightarrow> (Inl e, w2)
      | (Inr createBlob, w2) \<Rightarrow>
     (case request client
             (CreateTree owner repo
                [\<lparr>path = ''reports/merkle-trees-by-user.json'', mode = ''100644'',
                  type' = ''blob'', sha = createBlob\<rparr>]
                currentBranch) w2 of
        (Inl e, w3) \<Rightarrow> (Inl e, w3)
      | (Inr createTree, w3) \<Rightarrow>
     (case request client
             (CreateCommit owner repo ''**GENERATED** Arrange Rewards by User'' createTree
                [currentBranch]) w3 of
        (Inl e, w4) \<Rightarrow> (Inl e, w4)
      | (Inr createCommit, w4) \<Rightarrow>
     (case request client (UpdateRef owner repo (''heads/'' @ branchInput) createCommit) w4 of
        (Inl e, w5) \<Rightarrow> (Inl e, w5)
      | (Inr _, w5) \<Rightarrow> (Inr (), w5))))))"


section \<open>The run\<close>

text \<open>
  What the run takes from outside: the action inputs (\<^verbatim>\<open>core.getInput\<close> with
  \<^verbatim>\<open>required: true\<close> throws on a missing input), the client factory, and the two JSON
  functions of the language. \<open>'t\<close> is the type of a parsed reward file, \<open>'u\<close> the type of
  the reshaped index.
\<close>

record ('t, 'u) env =
  getInput :: "string \<Rightarrow> thrown + string"
  getOctokit :: "string \<Rightarrow> thrown + octokit"
  JSON_parse :: "string \<Rightarrow> thrown + 't"
  JSON_stringify :: "'u \<Rightarrow> string"

text \<open>
  The \<^verbatim>\<open>try\<close> block. The two variants differ in the month index builder and in the reshape
  loop only, which are the parameters \<open>build\<close> and \<open>reshape\<close>.
\<close>

definition run_body ::
  "((string \<Rightarrow> thrown + 't) \<Rightarrow> QueryResult \<Rightarrow> thrown + 'm) \<Rightarrow> ('m \<Rightarrow> 'u) \<Rightarrow> ('t, 'u) env
     \<Rightarrow> remote \<Rightarrow> (thrown + unit) \<times> remote" where
  "run_body build reshape env w =
     (case getInput env ''owner'' of Inl e \<Rightarrow> (Inl e, w) | Inr owner \<Rightarrow>
     (case getInput env ''repo'' of Inl e \<Rightarrow> (Inl e, w) | Inr repo \<Rightarrow>
     (case getInput env ''token'' of Inl e \<Rightarrow> (Inl e, w) | Inr ghToken \<Rightarrow>
     (case getInput env ''branch'' of Inl e \<Rightarrow> (Inl e, w) | Inr branchInput \<Rightarrow>
     (case getOctokit env ghToken of Inl e \<Rightarrow> (Inl e, w) | Inr client \<Rightarrow>
     (case graphql client owner repo of Inl e \<Rightarrow> (Inl e, w) | Inr merkleTrees \<Rightarrow>
     (case build (JSON_parse env) merkleTrees of Inl e \<Rightarrow> (Inl e, w) | Inr byMonth \<Rightarrow>
        publish client owner repo branchInput (JSON_stringify env (reshape byMonth)) w)))))))"

text \<open>
  The \<^verbatim>\<open>catch\<close> clause: \<^verbatim>\<open>if (error instanceof Error) core.setFailed(error.message)\<close>.
  \<open>Failed m\<close> says that \<^verbatim>\<open>core.setFailed\<close> was called with \<open>m\<close>, \<open>Not_failed\<close> that it
  was not called.
\<close>

datatype action_result = Not_failed | Failed string

fun catch_clause :: "thrown \<Rightarrow> action_result" where
  "catch_clause (Error m) = Failed m"
| "catch_clause NonError = Not_failed"

definition finish :: "(thrown + unit) \<times> remote \<Rightarrow> action_result \<times> remote" where
  "finish r =
     (case r of
        (Inl error, w') \<Rightarrow> (catch_clause error, w')
      | (Inr _, w') \<Rightarrow> (Not_failed, w'))"

definition try_block ::
  "('n MerkleTree, 'n MerkleTreesByUser) env \<Rightarrow> remote \<Rightarrow> (thrown + unit) \<times> remote" where
  "try_block = run_body merkleTreesByMonth merkleTreesByUser"

definition try_block_dual ::
  "('n MerkleTree_dual, 'n MerkleTreesByUser_dual) env \<Rightarrow> remote
     \<Rightarrow> (thrown + unit) \<times> remote" where
  "try_block_dual = run_body merkleTreesByMonth_dual merkleTreesByUser_dual"

definition run ::
  "('n MerkleTree, 'n MerkleTreesByUser) env \<Rightarrow> remote \<Rightarrow> action_result \<times> remote" where
  "run env w = finish (try_block env w)"

definition run_dual ::
  "('n MerkleTree_dual, 'n MerkleTreesByUser_dual) env \<Rightarrow> remote
     \<Rightarrow> action_result \<times> remote" where
  "run_dual env w = finish (try_block_dual env w)"


section \<open>Reading an index\<close>

text \<open>
  The value at the path \<^verbatim>\<open>[user][date]\<close> of a two-level index, and at the path
  \<^verbatim>\<open>[user][token][date]\<close> of a three-level one.
\<close>

definition at_path ::
  "(string \<times> (string \<times> 'c) list) list \<Rightarrow> string \<Rightarrow> string \<Rightarrow> 'c option" where
  "at_path byUser user date =
     (case map_of byUser user of None \<Rightarrow> None | Some byMonth \<Rightarrow> map_of byMonth date)"

definition at_path_dual ::
  "(string \<times> (string \<times> (string \<times> 'c) list) list) list \<Rightarrow> string \<Rightarrow> string \<Rightarrow> string
     \<Rightarrow> 'c option" where
  "at_path_dual byUser user tok date =
     (case map_of byUser user of None \<Rightarrow> None | Some byToken \<Rightarrow> at_path byToken tok date)"

text \<open>The number of claims an index holds: the innermost properties.\<close>

definition count_claims :: "(string \<times> (string \<times> 'c) list) list \<Rightarrow> nat" where
  "count_claims byUser = sum_list (map (\<lambda>p. length (snd p)) byUser)"

definition count_claims_dual ::
  "(string \<times> (string \<times> (string \<times> 'c) list) list) list \<Rightarrow> nat" where
  "count_claims_dual byUser = sum_list (map (\<lambda>p. count_claims (snd p)) byUser)"

text \<open>An index whose lists stand for objects at every level.\<close>

definition MerkleTreesByMonth_ok :: "'n MerkleTreesByMonth \<Rightarrow> bool" where
  "MerkleTreesByMonth_ok byMonth \<longleftrightarrow>
     js_object byMonth \<and> (\<forall>p \<in> set byMonth. js_object (claims (snd p)))"

definition MerkleTreesByMonth_dual_ok :: "'n MerkleTreesByMonth_dual \<Rightarrow> bool" where
  "MerkleTreesByMonth_dual_ok byMonth \<longleftrightarrow>
     js_object byMonth \<and>
     (\<forall>p \<in> set byMonth.
        js_object (snd p) \<and> (\<forall>q \<in> set (snd p). js_object (recipients (snd q))))"

definition tokens_ok :: "(string \<times> 'n MerkleTree_dual) list \<Rightarrow> bool" where
  "tokens_ok byToken \<longleftrightarrow>
     distinct (map fst byToken) \<and> (\<forall>p \<in> set byToken. distinct (map fst (recipients (snd p))))"

definition nested_distinct :: "(string \<times> (string \<times> 'c) list) list \<Rightarrow> bool" where
  "nested_distinct idx \<longleftrightarrow>
     distinct (map fst idx) \<and> (\<forall>p \<in> set idx. distinct (map fst (snd p)))"

definition nested_distinct_dual ::
  "(string \<times> (string \<times> (string \<times> 'c) list) list) list \<Rightarrow> bool" where
  "nested_distinct_dual idx \<longleftrightarrow>
     distinct (map fst idx) \<and> (\<forall>p \<in> set idx. nested_distinct (snd p))"

text \<open>
  The mappings that the lists stand for, with the order of the keys forgotten: month to
  recipient to claim for the input, recipient to month to claim for the output, and the same
  with the token level in between for the dual variant.
\<close>

definition MerkleTreesByMonth_mapping ::
  "'n MerkleTreesByMonth \<Rightarrow> string \<Rightarrow> (string \<Rightarrow> 'n Claim option) option" where
  "MerkleTreesByMonth_mapping byMonth date =
     map_option (\<lambda>merkleTree. map_of (claims merkleTree)) (map_of byMonth date)"

definition MerkleTreesByUser_mapping ::
  "(string \<times> (string \<times> 'c) list) list \<Rightarrow> string \<Rightarrow> (string \<Rightarrow> 'c option) option" where
  "MerkleTreesByUser_mapping byUser user = map_option map_of (map_of byUser user)"

definition MerkleTreesByMonth_dual_mapping ::
  "'n MerkleTreesByMonth_dual
     \<Rightarrow> string \<Rightarrow> (string \<Rightarrow> (string \<Rightarrow> 'n Recipient option) option) option" where
  "MerkleTreesByMonth_dual_mapping byMonth date =
     map_option
       (\<lambda>byToken tok. map_option (\<lambda>merkleTree. map_of (recipients merkleTree)) (map_of byToken tok))
       (map_of byMonth date)"

definition MerkleTreesByUser_dual_mapping ::
  "(string \<times> (string \<times> (string \<times> 'c) list) list) list
     \<Rightarrow> string \<Rightarrow> (string \<Rightarrow> (string \<Rightarrow> 'c option) option) option" where
  "MerkleTreesByUser_dual_mapping byUser user =
     map_option MerkleTreesByUser_mapping (map_of byUser user)"


section \<open>Auxiliary notions for the statements\<close>

text \<open>A fetched entry with the files of unrecognized name removed (single-schema variant).\<close>

definition recognized_only :: "tree_entry \<Rightarrow> tree_entry" where
  "recognized_only entry =
     entry\<lparr>entry_object :=
       (case entry_object entry of
          Object_entries els \<Rightarrow>
            Object_entries (filter (\<lambda>el. file_name el = ''merkle-tree.json'') els)
        | other \<Rightarrow> other)\<rparr>"

text \<open>The error of \<open>entry_files\<close> on an entry without nested entries.\<close>

definition missing_entries_error :: "tree_entry \<Rightarrow> thrown" where
  "missing_entries_error entry =
     (if entry_object entry = Object_null then TypeError_read ''null'' ''entries''
      else TypeError_read ''undefined'' ''map'')"

text \<open>No object inside an index is empty.\<close>

definition no_empty :: "(string \<times> 'v list) list \<Rightarrow> bool" where
  "no_empty idx \<longleftrightarrow> (\<forall>p \<in> set idx. snd p \<noteq> [])"

definition no_empty_dual :: "(string \<times> (string \<times> 'v list) list) list \<Rightarrow> bool" where
  "no_empty_dual idx \<longleftrightarrow> (\<forall>p \<in> set idx. snd p \<noteq> [] \<and> no_empty (snd p))"

text \<open>
  The reshape loops with every read taken among the own properties, without
  \<^verbatim>\<open>Object.prototype\<close>. On lists that stand for objects they compute what the loops of the
  program compute (\<open>merkleTreesByUser_is_own\<close> and \<open>merkleTreesByUser_dual_is_own\<close> below);
  the proofs go through them.
\<close>

definition assign_claim_own ::
  "string \<Rightarrow> string \<Rightarrow> 'c \<Rightarrow> (string \<times> (string \<times> 'c) list) list
     \<Rightarrow> (string \<times> (string \<times> 'c) list) list" where
  "assign_claim_own user date claim byUser =
     (let byUser1 = (if map_of byUser user = None then AList.update user [] byUser else byUser)
      in AList.map_entry user (AList.update date claim) byUser1)"

fun claims_loop_own ::
  "string \<Rightarrow> (string \<times> (string \<times> 'c) list) list \<Rightarrow> (string \<times> 'c) list
     \<Rightarrow> (string \<times> (string \<times> 'c) list) list" where
  "claims_loop_own date byUser [] = byUser"
| "claims_loop_own date byUser ((user, claim) # rest) =
     claims_loop_own date (assign_claim_own user date claim byUser) rest"

fun months_loop_own :: "'n MerkleTreesByUser \<Rightarrow> 'n MerkleTreesByMonth \<Rightarrow> 'n MerkleTreesByUser" where
  "months_loop_own byUser [] = byUser"
| "months_loop_own byUser ((date, merkleTree) # rest) =
     months_loop_own (claims_loop_own date byUser (claims merkleTree)) rest"

definition merkleTreesByUser_own :: "'n MerkleTreesByMonth \<Rightarrow> 'n MerkleTreesByUser" where
  "merkleTreesByUser_own byMonth = months_loop_own [] byMonth"

definition assign_recipient_own ::
  "string \<Rightarrow> string \<Rightarrow> string \<Rightarrow> 'n Recipient \<Rightarrow> 'n MerkleTreesByUser_dual
     \<Rightarrow> 'n MerkleTreesByUser_dual" where
  "assign_recipient_own user tok date recipient byUser =
     (let byUser1 = (if map_of byUser user = None then AList.update user [] byUser else byUser);
          ensure_token = (\<lambda>byToken.
             if map_of byToken tok = None then AList.update tok [] byToken else byToken)
      in AList.map_entry user
           (\<lambda>byToken. AList.map_entry tok (AList.update date recipient) (ensure_token byToken))
           byUser1)"

fun recipients_loop_own ::
  "string \<Rightarrow> string \<Rightarrow> 'n MerkleTreesByUser_dual \<Rightarrow> (string \<times> 'n Recipient) list
     \<Rightarrow> 'n MerkleTreesByUser_dual" where
  "recipients_loop_own date tok byUser [] = byUser"
| "recipients_loop_own date tok byUser ((user, recipient) # rest) =
     recipients_loop_own date tok (assign_recipient_own user tok date recipient byUser) rest"

fun tokens_loop_own ::
  "string \<Rightarrow> 'n MerkleTreesByUser_dual \<Rightarrow> (string \<times> 'n MerkleTree_dual) list
     \<Rightarrow> 'n MerkleTreesByUser_dual" where
  "tokens_loop_own date byUser [] = byUser"
| "tokens_loop_own date byUser ((tok, merkleTree) # rest) =
     tokens_loop_own date (recipients_loop_own date tok byUser (recipients merkleTree)) rest"

fun months_loop_dual_own ::
  "'n MerkleTreesByUser_dual \<Rightarrow> 'n MerkleTreesByMonth_dual \<Rightarrow> 'n MerkleTreesByUser_dual" where
  "months_loop_dual_own byUser [] = byUser"
| "months_loop_dual_own byUser ((date, merkleTreesByToken) # rest) =
     months_loop_dual_own (tokens_loop_own date byUser merkleTreesByToken) rest"

definition merkleTreesByUser_dual_own :: "'n MerkleTreesByMonth_dual \<Rightarrow> 'n MerkleTreesByUser_dual" where
  "merkleTreesByUser_dual_own byMonth = months_loop_dual_own [] byMonth"

text \<open>
  The run has read its four inputs and obtained its client: the point from which only the
  tree query, the builder and the publisher remain.
\<close>

definition configured :: "('t, 'u) env \<Rightarrow> string \<Rightarrow> string \<Rightarrow> string \<Rightarrow> octokit \<Rightarrow> bool" where
  "configured env owner repo branchInput client \<longleftrightarrow>
     (\<exists>ghToken. getInput env ''owner'' = Inr owner \<and> getInput env ''repo'' = Inr repo
        \<and> getInput env ''token'' = Inr ghToken \<and> getInput env ''branch'' = Inr branchInput
        \<and> getOctokit env ghToken = Inr client)"

text \<open>
  The remote after a publish of \<open>content\<close> in which all five calls succeeded, on a branch
  whose tip was \<open>tip\<close>.
\<close>

definition published ::
  "octokit \<Rightarrow> string \<Rightarrow> string \<Rightarrow> string \<Rightarrow> string \<Rightarrow> string \<Rightarrow> remote \<Rightarrow> remote" where
  "published client owner repo branchInput content tip w =
     (let blob = new_sha client (CreateBlob owner repo content ''utf-8'');
          items = [\<lparr>path = ''reports/merkle-trees-by-user.json'', mode = ''100644'',
                    type' = ''blob'', sha = blob\<rparr>];
          tree = new_sha client (CreateTree owner repo items tip);
          message = ''**GENERATED** Arrange Rewards by User'';
          commit = new_sha client (CreateCommit owner repo message tree [tip])
      in w\<lparr>refs := AList.update (owner, repo, ''heads/'' @ branchInput) commit (refs w),
           log := log w @
             [(GetRef owner repo (''heads/'' @ branchInput), Inr tip),
              (CreateBlob owner repo content ''utf-8'', Inr blob),
              (CreateTree owner repo items tip, Inr tree),
              (CreateCommit owner repo message tree [tip], Inr commit),
              (UpdateRef owner repo (''heads/'' @ branchInput) commit, Inr commit)]\<rparr>)"

text \<open>
  What a run may do to the remote, from the remote \<open>w\<close> before to the remote \<open>w'\<close> after,
  with \<open>r\<close> the outcome of the \<^verbatim>\<open>try\<close> block and \<open>new\<close> the calls made: a call that failed
  is the last call, ends the block with its error and leaves every reference as it was;
  a reference differs only after the five calls were made in order and all succeeded, the
  last of them \<^verbatim>\<open>updateRef\<close>; a failed \<^verbatim>\<open>getRef\<close> is the only call of its run.
\<close>

definition publish_discipline :: "remote \<Rightarrow> thrown + unit \<Rightarrow> remote \<Rightarrow> bool" where
  "publish_discipline w r w' \<longleftrightarrow>
     (\<exists>new. log w' = log w @ new
        \<and> (\<forall>call e. (call, Inl e) \<in> set new
              \<longrightarrow> refs w' = refs w \<and> r = Inl e \<and> last new = (call, Inl e))
        \<and> (refs w' \<noteq> refs w \<longrightarrow>
              r = Inr () \<and>
              (\<exists>owner repo ref content items message tip blob tree commit.
                 new = [(GetRef owner repo ref, Inr tip),
                        (CreateBlob owner repo content ''utf-8'', Inr blob),
                        (CreateTree owner repo items tip, Inr tree),
                        (CreateCommit owner repo message tree [tip], Inr commit),
                        (UpdateRef owner repo ref commit, Inr commit)]))
        \<and> (\<forall>owner repo ref e. (GetRef owner repo ref, Inl e) \<in> set new
              \<longrightarrow> new = [(GetRef owner repo ref, Inl e)]))"

fun is_CreateCommit :: "git_call \<Rightarrow> bool" where
  "is_CreateCommit (CreateCommit _ _ _ _ _) = True"
| "is_CreateCommit _ = False"

text \<open>
  Between \<open>w\<close> and \<open>w'\<close> exactly one commit was created; its message is the literal of the
  source and its only parent is the tip that \<^verbatim>\<open>getRef\<close> returned, which is the tip the branch
  had in \<open>w\<close>.
\<close>

definition single_fixed_commit :: "remote \<Rightarrow> remote \<Rightarrow> bool" where
  "single_fixed_commit w w' \<longleftrightarrow>
     (\<exists>owner repo branchInput tree tip commit.
        map_of (refs w) (owner, repo, ''heads/'' @ branchInput) = Some tip
      \<and> (GetRef owner repo (''heads/'' @ branchInput), Inr tip)
          \<in> set (drop (length (log w)) (log w'))
      \<and> filter (\<lambda>p. is_CreateCommit (fst p)) (drop (length (log w)) (log w')) =
          [(CreateCommit owner repo ''**GENERATED** Arrange Rewards by User'' tree [tip],
            Inr commit)])"


section \<open>Example data\<close>

text \<open>Concrete inputs on which the statements below are instantiated.\<close>

definition example_claim :: "int Claim" where
  "example_claim =
     \<lparr>accountIndex = 0, amount = ''100'', metadata = \<lparr>reason = ''x''\<rparr>, windowIndex = 0,
      proof' = [''0x00'']\<rparr>"

definition example_claim2 :: "int Claim" where
  "example_claim2 =
     \<lparr>accountIndex = 1, amount = ''250'', metadata = \<lparr>reason = ''y''\<rparr>, windowIndex = 0,
      proof' = [''0x01'', ''0x02'']\<rparr>"

definition example_tree :: "(string \<times> int Claim) list \<Rightarrow> int MerkleTree" where
  "example_tree cs =
     \<lparr>id' = 1, rewardToken = ''0xT'', tree_windowIndex = 0, totalRewardsDistributed = ''350'',
      merkleRoot = ''0xR'', claims = cs\<rparr>"

definition example_byMonth :: "int MerkleTreesByMonth" where
  "example_byMonth =
     [(''2021-01'', example_tree [(''0xAAA'', example_claim), (''0xBBB'', example_claim2)]),
      (''2021-02'', example_tree [(''0xAAA'', example_claim2)])]"

definition example_byMonth_reordered :: "int MerkleTreesByMonth" where
  "example_byMonth_reordered =
     [(''2021-02'', example_tree [(''0xAAA'', example_claim2)]),
      (''2021-01'', example_tree [(''0xBBB'', example_claim2), (''0xAAA'', example_claim)])]"

definition example_recipient :: "int Recipient" where
  "example_recipient =
     \<lparr>r_windowIndex = 0, r_accountIndex = 0, rewards = ''7'', r_proof = [''0x00'']\<rparr>"

definition example_recipient2 :: "int Recipient" where
  "example_recipient2 =
     \<lparr>r_windowIndex = 0, r_accountIndex = 3, rewards = ''9'', r_proof = [''0x0a'', ''0x0b'']\<rparr>"

definition example_tree_dual :: "(string \<times> int Recipient) list \<Rightarrow> int MerkleTree_dual" where
  "example_tree_dual rs =
     \<lparr>d_windowIndex = 0, chainId = 1,
      aggregateRewards =
        \<lparr>address = ''0xT'', token = ''T'', decimals = 18, agg_amount = ''16'',
         original_amount = ''16'', pro_rata = ''0'', non_active_pro_rata = ''0'',
         redistributed_total = ''0'', redistributed_to_stakers = ''0'',
         redistributed_transferred = ''0'', total_tax = ''0''\<rparr>,
      recipients = rs, root = ''0xR''\<rparr>"

definition example_byMonth_dual :: "int MerkleTreesByMonth_dual" where
  "example_byMonth_dual =
     [(''2021-01'',
       [(''veAUXO'', example_tree_dual [(''0xAAA'', example_recipient)]),
        (''xAUXO'', example_tree_dual [(''0xAAA'', example_recipient2), (''0xBBB'', example_recipient)])])]"

definition example_byMonth_dual_reordered :: "int MerkleTreesByMonth_dual" where
  "example_byMonth_dual_reordered =
     [(''2021-01'',
       [(''xAUXO'', example_tree_dual [(''0xBBB'', example_recipient), (''0xAAA'', example_recipient2)]),
        (''veAUXO'', example_tree_dual [(''0xAAA'', example_recipient)])])]"

text \<open>
  A month whose file holds a claim under the recipient key \<^verbatim>\<open>constructor\<close>, a member name of
  \<^verbatim>\<open>Object.prototype\<close>, and a claim under an address.
\<close>

definition example_tree_inherited :: "int MerkleTree" where
  "example_tree_inherited =
     example_tree [(''constructor'', example_claim), (''0xAAA'', example_claim2)]"

definition example_byMonth_inherited :: "int MerkleTreesByMonth" where
  "example_byMonth_inherited = [(''2021-01'', example_tree_inherited)]"

text \<open>
  A month whose file holds a claim under the recipient key \<^verbatim>\<open>__proto__\<close> and a claim under a
  recipient key that is the label of the month, with the two keys listed in either order.
\<close>

definition example_tree_proto :: "int MerkleTree" where
  "example_tree_proto =
     example_tree [(''__proto__'', example_claim), (''2021-01'', example_claim2)]"

definition example_tree_proto_reordered :: "int MerkleTree" where
  "example_tree_proto_reordered =
     example_tree [(''2021-01'', example_claim2), (''__proto__'', example_claim)]"

definition example_byMonth_proto :: "int MerkleTreesByMonth" where
  "example_byMonth_proto = [(''2021-01'', example_tree_proto)]"

definition example_byMonth_proto_reordered :: "int MerkleTreesByMonth" where
  "example_byMonth_proto_reordered = [(''2021-01'', example_tree_proto_reordered)]"

text \<open>
  Fetched trees: a month with one recognized and one unrecognized file followed by a month
  without a recognized file; a month with both token files; a plain file directly under the
  root directory.
\<close>

definition example_merkleTrees :: QueryResult where
  "example_merkleTrees =
     [\<lparr>entry_name = ''2021-01'', entry_type = ''tree'',
       entry_object = Object_entries
         [\<lparr>file_name = ''README.md'', file_text = ''notes''\<rparr>,
          \<lparr>file_name = ''merkle-tree.json'', file_text = ''jan''\<rparr>]\<rparr>,
      \<lparr>entry_name = ''2021-02'', entry_type = ''tree'',
       entry_object = Object_entries [\<lparr>file_name = ''draft.json'', file_text = ''feb''\<rparr>]\<rparr>]"

definition example_merkleTrees_dual :: QueryResult where
  "example_merkleTrees_dual =
     [\<lparr>entry_name = ''2021-01'', entry_type = ''tree'',
       entry_object = Object_entries
         [\<lparr>file_name = ''merkle-tree-veAUXO.json'', file_text = ''ve''\<rparr>,
          \<lparr>file_name = ''merkle-tree-xAUXO.json'', file_text = ''x''\<rparr>]\<rparr>]"

definition example_file_at_root :: QueryResult where
  "example_file_at_root =
     [\<lparr>entry_name = ''README.md'', entry_type = ''blob'', entry_object = Object_without_entries\<rparr>]"

text \<open>Stand-ins for \<^verbatim>\<open>JSON.parse\<close> and \<^verbatim>\<open>JSON.stringify\<close> on the texts above.\<close>

definition example_parse :: "string \<Rightarrow> thrown + int MerkleTree" where
  "example_parse s =
     (if s = ''jan'' then Inr (example_tree [(''0xAAA'', example_claim)])
      else Inl (Error ''Unexpected token''))"

definition example_parse_to :: "int MerkleTree \<Rightarrow> string \<Rightarrow> thrown + int MerkleTree" where
  "example_parse_to merkleTree s =
     (if s = ''jan'' then Inr merkleTree else Inl (Error ''Unexpected token''))"

definition example_parse_dual :: "string \<Rightarrow> thrown + int MerkleTree_dual" where
  "example_parse_dual s =
     (if s = ''ve'' then Inr (example_tree_dual [(''0xAAA'', example_recipient)])
      else if s = ''x'' then Inr (example_tree_dual [(''0xAAA'', example_recipient2)])
      else Inl (Error ''Unexpected token''))"

definition example_stringify :: "'a list \<Rightarrow> string" where
  "example_stringify idx = (if idx = [] then ''{}'' else ''{ ... }'')"

text \<open>A client whose calls all succeed, and one whose tree query rejects with a given value.\<close>

definition example_sha :: "git_call \<Rightarrow> string" where
  "example_sha call =
     (case call of
        CreateBlob _ _ _ _ \<Rightarrow> ''b10b''
      | CreateTree _ _ _ _ \<Rightarrow> ''7ee0''
      | CreateCommit _ _ _ _ _ \<Rightarrow> ''c0de''
      | _ \<Rightarrow> [])"

definition example_client :: "QueryResult \<Rightarrow> octokit" where
  "example_client merkleTrees =
     \<lparr>graphql = (\<lambda>owner repo. Inr merkleTrees), fault = (\<lambda>call. None), new_sha = example_sha\<rparr>"

definition example_client_rejecting :: "thrown \<Rightarrow> octokit" where
  "example_client_rejecting e =
     \<lparr>graphql = (\<lambda>owner repo. Inl e), fault = (\<lambda>call. None), new_sha = example_sha\<rparr>"

definition example_inputs :: "string \<Rightarrow> thrown + string" where
  "example_inputs name' =
     (if name' = ''owner'' then Inr ''auxo''
      else if name' = ''repo'' then Inr ''rewards''
      else if name' = ''token'' then Inr ''secret''
      else if name' = ''branch'' then Inr ''main''
      else Inl (Error (''Input required and not supplied: '' @ name')))"

definition example_env :: "octokit \<Rightarrow> (string \<Rightarrow> thrown + 't) \<Rightarrow> ('t, 'a list) env" where
  "example_env client parse =
     \<lparr>getInput = example_inputs, getOctokit = (\<lambda>ghToken. Inr client), JSON_parse = parse,
      JSON_stringify = example_stringify\<rparr>"

definition example_remote :: remote where
  "example_remote = \<lparr>refs = [((''auxo'', ''rewards'', ''heads/main''), ''c0ffee'')], log = []\<rparr>"

definition example_remote_without_branch :: remote where
  "example_remote_without_branch = \<lparr>refs = [], log = []\<rparr>"


section \<open>Properties of the reshape loops\<close>

subsection \<open>What a path holds after each loop\<close>

lemma at_path_assign_claim:
  "at_path (assign_claim_own u d c idx) u' d' = (if u' = u \<and> d' = d then Some c else at_path idx u' d')"
  by (auto simp: at_path_def assign_claim_own_def Let_def map_of_map_entry update_conv' split: option.splits)

lemma keys_assign_claim: "fst ` set (assign_claim_own u d c idx) = insert u (fst ` set idx)"
  by (auto simp: assign_claim_own_def Let_def dom_map_entry dom_update map_of_eq_None_iff)

lemma at_path_claims_loop:
  "distinct (map fst cs) \<Longrightarrow>
   at_path (claims_loop_own d idx cs) u' d' =
     (if d' = d then (case map_of cs u' of None \<Rightarrow> at_path idx u' d' | Some c \<Rightarrow> Some c)
      else at_path idx u' d')"
proof (induction cs arbitrary: idx)
  case Nil
  then show ?case by simp
next
  case (Cons p cs)
  obtain u c where p: "p = (u, c)" by (cases p)
  from Cons.prems have d: "distinct (map fst cs)" and u: "map_of cs u = None"
    by (auto simp: p map_of_eq_None_iff)
  show ?case
    unfolding p using u by (auto simp add: Cons.IH [OF d] at_path_assign_claim split: option.splits)
qed

lemma keys_claims_loop: "fst ` set (claims_loop_own d idx cs) = fst ` set idx \<union> fst ` set cs"
proof (induction cs arbitrary: idx)
  case Nil
  then show ?case by simp
next
  case (Cons p cs)
  obtain u c where p: "p = (u, c)" by (cases p)
  show ?case unfolding p by (simp add: Cons.IH keys_assign_claim)
qed

lemma at_path_months_loop:
  "distinct (map fst mi) \<Longrightarrow> \<forall>p \<in> set mi. distinct (map fst (claims (snd p))) \<Longrightarrow>
   at_path (months_loop_own idx mi) u d =
     (case map_of mi d of
        None \<Rightarrow> at_path idx u d
      | Some t \<Rightarrow> (case map_of (claims t) u of None \<Rightarrow> at_path idx u d | Some c \<Rightarrow> Some c))"
proof (induction mi arbitrary: idx)
  case Nil
  then show ?case by simp
next
  case (Cons p mi)
  obtain m t where p: "p = (m, t)" by (cases p)
  from Cons.prems have d: "distinct (map fst mi)"
    and ds: "\<forall>p \<in> set mi. distinct (map fst (claims (snd p)))"
    and dt: "distinct (map fst (claims t))"
    and m: "map_of mi m = None"
    by (auto simp: p map_of_eq_None_iff)
  show ?case
    unfolding p using m
    by (auto simp add: Cons.IH [OF d ds] at_path_claims_loop [OF dt] split: option.splits)
qed

lemma keys_months_loop:
  "fst ` set (months_loop_own idx mi) = fst ` set idx \<union> (\<Union>p \<in> set mi. fst ` set (claims (snd p)))"
proof (induction mi arbitrary: idx)
  case Nil
  then show ?case by simp
next
  case (Cons p mi)
  obtain m t where p: "p = (m, t)" by (cases p)
  show ?case unfolding p by (simp add: Cons.IH keys_claims_loop Un_assoc)
qed

lemma at_path_ensure:
  "at_path (if map_of bt tok = None then AList.update tok [] bt else bt) t' d' = at_path bt t' d'"
  by (auto simp: at_path_def update_conv' split: option.splits)

lemma at_path_map_entry_update:
  "map_of bt tok \<noteq> None \<Longrightarrow>
   at_path (AList.map_entry tok (AList.update d r) bt) t' d' =
     (if t' = tok \<and> d' = d then Some r else at_path bt t' d')"
  by (auto simp: at_path_def map_of_map_entry update_conv' split: option.splits)

lemma at_path_dual_assign_recipient:
  "at_path_dual (assign_recipient_own u tok d r idx) u' t' d' =
     (if u' = u \<and> t' = tok \<and> d' = d then Some r else at_path_dual idx u' t' d')"
proof -
  let ?ens = "\<lambda>bt. if map_of bt tok = None then AList.update tok [] bt else bt"
  have ens: "map_of (?ens bt) tok \<noteq> None" for bt :: "(string \<times> (string \<times> 'a Recipient) list) list"
    by (simp add: update_conv')
  have inner: "at_path (AList.map_entry tok (AList.update d r) (?ens bt)) t' d' =
     (if t' = tok \<and> d' = d then Some r else at_path bt t' d')"
    for bt :: "(string \<times> (string \<times> 'a Recipient) list) list"
    using at_path_map_entry_update [OF ens, of d r bt t' d'] by (simp only: at_path_ensure)
  show ?thesis
    by (auto simp: at_path_dual_def assign_recipient_own_def Let_def map_of_map_entry update_conv' inner
        at_path_def split: option.splits)
qed

lemma keys_assign_recipient:
  "fst ` set (assign_recipient_own u tok d r idx) = insert u (fst ` set idx)"
  by (auto simp: assign_recipient_own_def Let_def dom_map_entry dom_update map_of_eq_None_iff)

lemma at_path_dual_recipients_loop:
  "distinct (map fst rs) \<Longrightarrow>
   at_path_dual (recipients_loop_own d tok idx rs) u' t' d' =
     (if d' = d \<and> t' = tok then
        (case map_of rs u' of None \<Rightarrow> at_path_dual idx u' t' d' | Some r \<Rightarrow> Some r)
      else at_path_dual idx u' t' d')"
proof (induction rs arbitrary: idx)
  case Nil
  then show ?case by simp
next
  case (Cons p rs)
  obtain u r where p: "p = (u, r)" by (cases p)
  from Cons.prems have d: "distinct (map fst rs)" and u: "map_of rs u = None"
    by (auto simp: p map_of_eq_None_iff)
  show ?case
    unfolding p using u
    by (auto simp add: Cons.IH [OF d] at_path_dual_assign_recipient split: option.splits)
qed

lemma keys_recipients_loop:
  "fst ` set (recipients_loop_own d tok idx rs) = fst ` set idx \<union> fst ` set rs"
proof (induction rs arbitrary: idx)
  case Nil
  then show ?case by simp
next
  case (Cons p rs)
  obtain u r where p: "p = (u, r)" by (cases p)
  show ?case unfolding p by (simp add: Cons.IH keys_assign_recipient)
qed

lemma at_path_dual_tokens_loop:
  "distinct (map fst bt) \<Longrightarrow> \<forall>p \<in> set bt. distinct (map fst (recipients (snd p))) \<Longrightarrow>
   at_path_dual (tokens_loop_own d idx bt) u' t' d' =
     (if d' = d then
        (case map_of bt t' of
           None \<Rightarrow> at_path_dual idx u' t' d'
         | Some t \<Rightarrow> (case map_of (recipients t) u' of
                        None \<Rightarrow> at_path_dual idx u' t' d' | Some r \<Rightarrow> Some r))
      else at_path_dual idx u' t' d')"
proof (induction bt arbitrary: idx)
  case Nil
  then show ?case by simp
next
  case (Cons p bt)
  obtain tok t where p: "p = (tok, t)" by (cases p)
  from Cons.prems have d: "distinct (map fst bt)"
    and ds: "\<forall>p \<in> set bt. distinct (map fst (recipients (snd p)))"
    and dt: "distinct (map fst (recipients t))"
    and m: "map_of bt tok = None"
    by (auto simp: p map_of_eq_None_iff)
  show ?case
    unfolding p using m
    by (auto simp add: Cons.IH [OF d ds] at_path_dual_recipients_loop [OF dt] split: option.splits)
qed

lemma keys_tokens_loop:
  "fst ` set (tokens_loop_own d idx bt) =
     fst ` set idx \<union> (\<Union>p \<in> set bt. fst ` set (recipients (snd p)))"
proof (induction bt arbitrary: idx)
  case Nil
  then show ?case by simp
next
  case (Cons p bt)
  obtain tok t where p: "p = (tok, t)" by (cases p)
  show ?case unfolding p by (simp add: Cons.IH keys_recipients_loop Un_assoc)
qed

lemma at_path_dual_months_loop:
  "distinct (map fst mi) \<Longrightarrow> \<forall>p \<in> set mi. tokens_ok (snd p) \<Longrightarrow>
   at_path_dual (months_loop_dual_own idx mi) u' t' d' =
     (case map_of mi d' of
        None \<Rightarrow> at_path_dual idx u' t' d'
      | Some bt \<Rightarrow>
         (case map_of bt t' of
            None \<Rightarrow> at_path_dual idx u' t' d'
          | Some t \<Rightarrow> (case map_of (recipients t) u' of
                         None \<Rightarrow> at_path_dual idx u' t' d' | Some r \<Rightarrow> Some r)))"
proof (induction mi arbitrary: idx)
  case Nil
  then show ?case by simp
next
  case (Cons p mi)
  obtain m bt where p: "p = (m, bt)" by (cases p)
  from Cons.prems have d: "distinct (map fst mi)"
    and ds: "\<forall>p \<in> set mi. tokens_ok (snd p)"
    and dt: "distinct (map fst bt)" "\<forall>p \<in> set bt. distinct (map fst (recipients (snd p)))"
    and m: "map_of mi m = None"
    by (auto simp: p map_of_eq_None_iff tokens_ok_def)
  show ?case
    unfolding p using m
    by (auto simp add: Cons.IH [OF d ds] at_path_dual_tokens_loop [OF dt] split: option.splits)
qed

lemma keys_months_loop_dual:
  "fst ` set (months_loop_dual_own idx mi) =
     fst ` set idx \<union> (\<Union>p \<in> set mi. \<Union>q \<in> set (snd p). fst ` set (recipients (snd q)))"
proof (induction mi arbitrary: idx)
  case Nil
  then show ?case by simp
next
  case (Cons p mi)
  obtain m bt where p: "p = (m, bt)" by (cases p)
  show ?case unfolding p by (simp add: Cons.IH keys_tokens_loop Un_assoc)
qed

lemma at_path_Some_key: "at_path idx u d = Some c \<Longrightarrow> u \<in> fst ` set idx"
  by (auto simp: at_path_def split: option.splits dest: map_of_SomeD intro: rev_image_eqI)

lemma at_path_dual_Some_key: "at_path_dual idx u tok d = Some c \<Longrightarrow> u \<in> fst ` set idx"
  by (auto simp: at_path_dual_def split: option.splits dest: map_of_SomeD intro: rev_image_eqI)

subsection \<open>Counting\<close>

lemma length_update:
  "length (AList.update k v ps) = (if map_of ps k = None then Suc (length ps) else length ps)"
  by (induction ps) auto

lemma count_map_entry:
  "map_of idx u = Some old \<Longrightarrow>
   count_claims (AList.map_entry u f idx) + length old = count_claims idx + length (f old)"
  by (induction idx) (auto simp: count_claims_def)

lemma count_update_empty:
  "map_of idx u = None \<Longrightarrow> count_claims (AList.update u [] idx) = count_claims idx"
  by (induction idx) (auto simp: count_claims_def)

lemma count_assign_claim:
  "at_path idx u d = None \<Longrightarrow> count_claims (assign_claim_own u d c idx) = Suc (count_claims idx)"
proof (cases "map_of idx u")
  case None
  assume "at_path idx u d = None"
  have "map_of (AList.update u [] idx) u = Some []" by (simp add: update_conv')
  from count_map_entry [OF this, of "AList.update d c"] None show ?thesis
    by (simp add: assign_claim_own_def count_update_empty)
next
  case (Some old)
  assume "at_path idx u d = None"
  with Some have "map_of old d = None" by (simp add: at_path_def)
  with count_map_entry [OF Some, of "AList.update d c"] Some show ?thesis
    by (simp add: assign_claim_own_def length_update)
qed

lemma count_claims_loop:
  "distinct (map fst cs) \<Longrightarrow> \<forall>u \<in> fst ` set cs. at_path idx u d = None \<Longrightarrow>
   count_claims (claims_loop_own d idx cs) = count_claims idx + length cs"
proof (induction cs arbitrary: idx)
  case Nil
  then show ?case by simp
next
  case (Cons p cs)
  obtain u c where p: "p = (u, c)" by (cases p)
  from Cons.prems have d: "distinct (map fst cs)" and u: "u \<notin> fst ` set cs"
    and n: "at_path idx u d = None" and ns: "\<forall>u' \<in> fst ` set cs. at_path idx u' d = None"
    by (auto simp: p)
  from u ns have "\<forall>u' \<in> fst ` set cs. at_path (assign_claim_own u d c idx) u' d = None"
    by (auto simp: at_path_assign_claim)
  from Cons.IH [OF d this] n show ?case
    unfolding p by (simp add: count_assign_claim)
qed

lemma count_months_loop:
  "distinct (map fst mi) \<Longrightarrow> \<forall>p \<in> set mi. distinct (map fst (claims (snd p))) \<Longrightarrow>
   \<forall>p \<in> set mi. \<forall>u \<in> fst ` set (claims (snd p)). at_path idx u (fst p) = None \<Longrightarrow>
   count_claims (months_loop_own idx mi) = count_claims idx + (\<Sum>p\<leftarrow>mi. length (claims (snd p)))"
proof (induction mi arbitrary: idx)
  case Nil
  then show ?case by simp
next
  case (Cons p mi)
  obtain m t where p: "p = (m, t)" by (cases p)
  from Cons.prems have d: "distinct (map fst mi)"
    and ds: "\<forall>p \<in> set mi. distinct (map fst (claims (snd p)))"
    and dt: "distinct (map fst (claims t))"
    and m: "m \<notin> fst ` set mi"
    and nt: "\<forall>u \<in> fst ` set (claims t). at_path idx u m = None"
    and ns: "\<forall>p \<in> set mi. \<forall>u \<in> fst ` set (claims (snd p)). at_path idx u (fst p) = None"
    by (auto simp: p)
  have "\<forall>p \<in> set mi. \<forall>u \<in> fst ` set (claims (snd p)).
          at_path (claims_loop_own m idx (claims t)) u (fst p) = None"
    using m ns by (auto simp: at_path_claims_loop [OF dt])
  from Cons.IH [OF d ds this] show ?case
    unfolding p by (simp add: count_claims_loop [OF dt nt])
qed

lemma assign_recipient_eq:
  "assign_recipient_own u tok d r idx =
     AList.map_entry u (assign_claim_own tok d r)
       (if map_of idx u = None then AList.update u [] idx else idx)"
proof -
  have "assign_claim_own tok d r =
    (\<lambda>byToken. AList.map_entry tok (AList.update d r)
       (if map_of byToken tok = None then AList.update tok [] byToken else byToken))"
    by (rule ext) (simp add: assign_claim_own_def Let_def)
  then show ?thesis by (simp add: assign_recipient_own_def Let_def)
qed

lemma count_dual_map_entry:
  "map_of idx u = Some old \<Longrightarrow>
   count_claims_dual (AList.map_entry u f idx) + count_claims old =
     count_claims_dual idx + count_claims (f old)"
  by (induction idx) (auto simp: count_claims_dual_def)

lemma count_dual_update_empty:
  "map_of idx u = None \<Longrightarrow> count_claims_dual (AList.update u [] idx) = count_claims_dual idx"
  by (induction idx) (auto simp: count_claims_dual_def count_claims_def)

lemma count_assign_recipient:
  "at_path_dual idx u tok d = None \<Longrightarrow>
   count_claims_dual (assign_recipient_own u tok d r idx) = Suc (count_claims_dual idx)"
proof (cases "map_of idx u")
  case None
  have e: "map_of (AList.update u [] idx) u = Some []" by (simp add: update_conv')
  have one: "count_claims (assign_claim_own tok d r []) = Suc 0"
    using count_assign_claim [of "[]" tok d r] by (simp add: at_path_def count_claims_def)
  have zero: "count_claims ([] :: (string \<times> (string \<times> 'a Recipient) list) list) = 0"
    by (simp add: count_claims_def)
  from count_dual_map_entry [OF e, of "assign_claim_own tok d r"] None show ?thesis
    by (simp add: assign_recipient_eq count_dual_update_empty one zero)
next
  case (Some old)
  assume "at_path_dual idx u tok d = None"
  with Some have "at_path old tok d = None" by (simp add: at_path_dual_def)
  with count_dual_map_entry [OF Some, of "assign_claim_own tok d r"] Some show ?thesis
    by (simp add: assign_recipient_eq count_assign_claim)
qed

lemma count_recipients_loop:
  "distinct (map fst rs) \<Longrightarrow> \<forall>u \<in> fst ` set rs. at_path_dual idx u tok d = None \<Longrightarrow>
   count_claims_dual (recipients_loop_own d tok idx rs) = count_claims_dual idx + length rs"
proof (induction rs arbitrary: idx)
  case Nil
  then show ?case by simp
next
  case (Cons p rs)
  obtain u r where p: "p = (u, r)" by (cases p)
  from Cons.prems have d: "distinct (map fst rs)" and u: "u \<notin> fst ` set rs"
    and n: "at_path_dual idx u tok d = None"
    and ns: "\<forall>u' \<in> fst ` set rs. at_path_dual idx u' tok d = None"
    by (auto simp: p)
  from u ns have "\<forall>u' \<in> fst ` set rs. at_path_dual (assign_recipient_own u tok d r idx) u' tok d = None"
    by (auto simp: at_path_dual_assign_recipient)
  from Cons.IH [OF d this] n show ?case
    unfolding p by (simp add: count_assign_recipient)
qed

lemma count_tokens_loop:
  "distinct (map fst bt) \<Longrightarrow> \<forall>p \<in> set bt. distinct (map fst (recipients (snd p))) \<Longrightarrow>
   \<forall>p \<in> set bt. \<forall>u \<in> fst ` set (recipients (snd p)). at_path_dual idx u (fst p) d = None \<Longrightarrow>
   count_claims_dual (tokens_loop_own d idx bt) =
     count_claims_dual idx + (\<Sum>p\<leftarrow>bt. length (recipients (snd p)))"
proof (induction bt arbitrary: idx)
  case Nil
  then show ?case by simp
next
  case (Cons p bt)
  obtain tok t where p: "p = (tok, t)" by (cases p)
  from Cons.prems have d: "distinct (map fst bt)"
    and ds: "\<forall>p \<in> set bt. distinct (map fst (recipients (snd p)))"
    and dt: "distinct (map fst (recipients t))"
    and m: "tok \<notin> fst ` set bt"
    and nt: "\<forall>u \<in> fst ` set (recipients t). at_path_dual idx u tok d = None"
    and ns: "\<forall>p \<in> set bt. \<forall>u \<in> fst ` set (recipients (snd p)). at_path_dual idx u (fst p) d = None"
    by (auto simp: p)
  have "\<forall>p \<in> set bt. \<forall>u \<in> fst ` set (recipients (snd p)).
          at_path_dual (recipients_loop_own d tok idx (recipients t)) u (fst p) d = None"
    using m ns by (auto simp: at_path_dual_recipients_loop [OF dt])
  from Cons.IH [OF d ds this] show ?case
    unfolding p by (simp add: count_recipients_loop [OF dt nt])
qed

lemma count_months_loop_dual:
  "distinct (map fst mi) \<Longrightarrow> \<forall>p \<in> set mi. tokens_ok (snd p) \<Longrightarrow>
   \<forall>p \<in> set mi. \<forall>q \<in> set (snd p). \<forall>u \<in> fst ` set (recipients (snd q)).
      at_path_dual idx u (fst q) (fst p) = None \<Longrightarrow>
   count_claims_dual (months_loop_dual_own idx mi) =
     count_claims_dual idx + (\<Sum>p\<leftarrow>mi. \<Sum>q\<leftarrow>snd p. length (recipients (snd q)))"
proof (induction mi arbitrary: idx)
  case Nil
  then show ?case by simp
next
  case (Cons p mi)
  obtain m bt where p: "p = (m, bt)" by (cases p)
  from Cons.prems have d: "distinct (map fst mi)"
    and ds: "\<forall>p \<in> set mi. tokens_ok (snd p)"
    and dt: "distinct (map fst bt)" "\<forall>p \<in> set bt. distinct (map fst (recipients (snd p)))"
    and m: "m \<notin> fst ` set mi"
    and nt: "\<forall>q \<in> set bt. \<forall>u \<in> fst ` set (recipients (snd q)). at_path_dual idx u (fst q) m = None"
    and ns: "\<forall>p \<in> set mi. \<forall>q \<in> set (snd p). \<forall>u \<in> fst ` set (recipients (snd q)).
               at_path_dual idx u (fst q) (fst p) = None"
    by (auto simp: p tokens_ok_def)
  have "\<forall>p \<in> set mi. \<forall>q \<in> set (snd p). \<forall>u \<in> fst ` set (recipients (snd q)).
          at_path_dual (tokens_loop_own m idx bt) u (fst q) (fst p) = None"
    using m ns by (auto simp: at_path_dual_tokens_loop [OF dt])
  from Cons.IH [OF d ds this] show ?case
    unfolding p by (simp add: count_tokens_loop [OF dt nt])
qed

subsection \<open>The output is an object at every level, and none of its objects is empty\<close>

lemma set_map_entry_pred:
  "\<forall>p \<in> set idx. P (snd p) \<Longrightarrow> (\<And>v. P v \<Longrightarrow> P (f v)) \<Longrightarrow>
   \<forall>p \<in> set (AList.map_entry k f idx). P (snd p)"
  by (induction idx) auto

lemma set_update_pred:
  "\<forall>p \<in> set idx. P (snd p) \<Longrightarrow> P v \<Longrightarrow> \<forall>p \<in> set (AList.update k v idx). P (snd p)"
  by (induction idx) auto

lemma nested_distinct_assign_claim:
  assumes "nested_distinct idx"
  shows "nested_distinct (assign_claim_own u d c idx)"
proof -
  let ?idx1 = "if map_of idx u = None then AList.update u [] idx else idx"
  from assms have d1: "distinct (map fst ?idx1)"
    by (simp add: nested_distinct_def distinct_update)
  from assms have "\<forall>p \<in> set idx. distinct (map fst (snd p))"
    by (simp add: nested_distinct_def)
  then have "\<forall>p \<in> set ?idx1. distinct (map fst (snd p))"
    using set_update_pred [of idx "\<lambda>v. distinct (map fst v)" "[]" u] by simp
  then have "\<forall>p \<in> set (AList.map_entry u (AList.update d c) ?idx1). distinct (map fst (snd p))"
    by (rule set_map_entry_pred) (rule distinct_update)
  with d1 show ?thesis
    by (simp add: nested_distinct_def assign_claim_own_def Let_def distinct_map_entry)
qed

lemma nested_distinct_claims_loop:
  "nested_distinct idx \<Longrightarrow> nested_distinct (claims_loop_own d idx cs)"
proof (induction cs arbitrary: idx)
  case Nil
  then show ?case by simp
next
  case (Cons p cs)
  obtain u c where p: "p = (u, c)" by (cases p)
  from Cons show ?case unfolding p by (simp add: nested_distinct_assign_claim)
qed

lemma nested_distinct_months_loop:
  "nested_distinct idx \<Longrightarrow> nested_distinct (months_loop_own idx mi)"
proof (induction mi arbitrary: idx)
  case Nil
  then show ?case by simp
next
  case (Cons p mi)
  obtain m t where p: "p = (m, t)" by (cases p)
  from Cons show ?case unfolding p by (simp add: nested_distinct_claims_loop)
qed

lemma nested_distinct_dual_assign_recipient:
  assumes "nested_distinct_dual idx"
  shows "nested_distinct_dual (assign_recipient_own u tok d r idx)"
proof -
  let ?idx1 = "if map_of idx u = None then AList.update u [] idx else idx"
  from assms have d1: "distinct (map fst ?idx1)"
    by (simp add: nested_distinct_dual_def distinct_update)
  from assms have "\<forall>p \<in> set idx. nested_distinct (snd p)"
    by (simp add: nested_distinct_dual_def)
  then have "\<forall>p \<in> set ?idx1. nested_distinct (snd p)"
    using set_update_pred [of idx nested_distinct "[]" u] by (simp add: nested_distinct_def)
  then have "\<forall>p \<in> set (AList.map_entry u (assign_claim_own tok d r) ?idx1). nested_distinct (snd p)"
    by (rule set_map_entry_pred) (rule nested_distinct_assign_claim)
  with d1 show ?thesis
    by (simp add: nested_distinct_dual_def assign_recipient_eq distinct_map_entry)
qed

lemma nested_distinct_dual_recipients_loop:
  "nested_distinct_dual idx \<Longrightarrow> nested_distinct_dual (recipients_loop_own d tok idx rs)"
proof (induction rs arbitrary: idx)
  case Nil
  then show ?case by simp
next
  case (Cons p rs)
  obtain u r where p: "p = (u, r)" by (cases p)
  from Cons show ?case unfolding p by (simp add: nested_distinct_dual_assign_recipient)
qed

lemma nested_distinct_dual_tokens_loop:
  "nested_distinct_dual idx \<Longrightarrow> nested_distinct_dual (tokens_loop_own d idx bt)"
proof (induction bt arbitrary: idx)
  case Nil
  then show ?case by simp
next
  case (Cons p bt)
  obtain tok t where p: "p = (tok, t)" by (cases p)
  from Cons show ?case unfolding p by (simp add: nested_distinct_dual_recipients_loop)
qed

lemma nested_distinct_dual_months_loop:
  "nested_distinct_dual idx \<Longrightarrow> nested_distinct_dual (months_loop_dual_own idx mi)"
proof (induction mi arbitrary: idx)
  case Nil
  then show ?case by simp
next
  case (Cons p mi)
  obtain m bt where p: "p = (m, bt)" by (cases p)
  from Cons show ?case unfolding p by (simp add: nested_distinct_dual_tokens_loop)
qed

lemma nested_distinct_merkleTreesByUser: "nested_distinct (merkleTreesByUser_own mi)"
proof -
  have "nested_distinct ([] :: (string \<times> (string \<times> 'a Claim) list) list)"
    by (simp add: nested_distinct_def)
  then show ?thesis unfolding merkleTreesByUser_own_def by (rule nested_distinct_months_loop)
qed

lemma nested_distinct_dual_merkleTreesByUser_dual: "nested_distinct_dual (merkleTreesByUser_dual_own mi)"
proof -
  have "nested_distinct_dual ([] :: (string \<times> (string \<times> (string \<times> 'a Recipient) list) list) list)"
    by (simp add: nested_distinct_dual_def)
  then show ?thesis unfolding merkleTreesByUser_dual_own_def by (rule nested_distinct_dual_months_loop)
qed

lemma assign_claim_map_default:
  "assign_claim_own u d c idx = AList.map_default u [(d, c)] (AList.update d c) idx"
  by (induction idx) (auto simp: assign_claim_own_def Let_def)

lemma assign_recipient_map_default:
  "assign_recipient_own u tok d r idx =
     AList.map_default u [(tok, [(d, r)])] (assign_claim_own tok d r) idx"
  by (induction idx) (auto simp: assign_recipient_eq assign_claim_map_default)

lemma set_map_default_pred:
  "\<forall>p \<in> set idx. P (snd p) \<Longrightarrow> P v \<Longrightarrow> (\<And>x. P x \<Longrightarrow> P (f x)) \<Longrightarrow>
   \<forall>p \<in> set (AList.map_default k v f idx). P (snd p)"
  by (induction idx) auto

lemma map_default_nonempty: "AList.map_default k v f idx \<noteq> []"
  by (cases idx) auto

lemma no_empty_assign_claim: "no_empty idx \<Longrightarrow> no_empty (assign_claim_own u d c idx)"
  unfolding no_empty_def assign_claim_map_default
  by (rule set_map_default_pred) simp_all

lemma no_empty_claims_loop: "no_empty idx \<Longrightarrow> no_empty (claims_loop_own d idx cs)"
proof (induction cs arbitrary: idx)
  case Nil
  then show ?case by simp
next
  case (Cons p cs)
  obtain u c where p: "p = (u, c)" by (cases p)
  from Cons show ?case unfolding p by (simp add: no_empty_assign_claim)
qed

lemma no_empty_months_loop: "no_empty idx \<Longrightarrow> no_empty (months_loop_own idx mi)"
proof (induction mi arbitrary: idx)
  case Nil
  then show ?case by simp
next
  case (Cons p mi)
  obtain m t where p: "p = (m, t)" by (cases p)
  from Cons show ?case unfolding p by (simp add: no_empty_claims_loop)
qed

lemma no_empty_dual_assign_recipient:
  "no_empty_dual idx \<Longrightarrow> no_empty_dual (assign_recipient_own u tok d r idx)"
  unfolding no_empty_dual_def assign_recipient_map_default
proof (rule set_map_default_pred)
  show "[(tok, [(d, r)])] \<noteq> [] \<and> no_empty [(tok, [(d, r)])]"
    by (simp add: no_empty_def)
  show "assign_claim_own tok d r x \<noteq> [] \<and> no_empty (assign_claim_own tok d r x)"
    if "x \<noteq> [] \<and> no_empty x" for x :: "(string \<times> (string \<times> 'a Recipient) list) list"
    using that by (simp add: no_empty_assign_claim) (simp add: assign_claim_map_default map_default_nonempty)
qed

lemma no_empty_dual_recipients_loop:
  "no_empty_dual idx \<Longrightarrow> no_empty_dual (recipients_loop_own d tok idx rs)"
proof (induction rs arbitrary: idx)
  case Nil
  then show ?case by simp
next
  case (Cons p rs)
  obtain u r where p: "p = (u, r)" by (cases p)
  from Cons show ?case unfolding p by (simp add: no_empty_dual_assign_recipient)
qed

lemma no_empty_dual_tokens_loop:
  "no_empty_dual idx \<Longrightarrow> no_empty_dual (tokens_loop_own d idx bt)"
proof (induction bt arbitrary: idx)
  case Nil
  then show ?case by simp
next
  case (Cons p bt)
  obtain tok t where p: "p = (tok, t)" by (cases p)
  from Cons show ?case unfolding p by (simp add: no_empty_dual_recipients_loop)
qed

lemma no_empty_dual_months_loop:
  "no_empty_dual idx \<Longrightarrow> no_empty_dual (months_loop_dual_own idx mi)"
proof (induction mi arbitrary: idx)
  case Nil
  then show ?case by simp
next
  case (Cons p mi)
  obtain m bt where p: "p = (m, bt)" by (cases p)
  from Cons show ?case unfolding p by (simp add: no_empty_dual_tokens_loop)
qed

lemma no_empty_merkleTreesByUser: "no_empty (merkleTreesByUser_own mi)"
proof -
  have "no_empty ([] :: (string \<times> (string \<times> 'a Claim) list) list)" by (simp add: no_empty_def)
  then show ?thesis unfolding merkleTreesByUser_own_def by (rule no_empty_months_loop)
qed

lemma no_empty_dual_merkleTreesByUser_dual: "no_empty_dual (merkleTreesByUser_dual_own mi)"
proof -
  have "no_empty_dual ([] :: (string \<times> (string \<times> (string \<times> 'a Recipient) list) list) list)"
    by (simp add: no_empty_dual_def)
  then show ?thesis unfolding merkleTreesByUser_dual_own_def by (rule no_empty_dual_months_loop)
qed

subsection \<open>The reshape as a function of the input mapping\<close>

lemma ok_distinct:
  "MerkleTreesByMonth_ok mi \<Longrightarrow>
   distinct (map fst mi) \<and> (\<forall>p \<in> set mi. distinct (map fst (claims (snd p))))"
  by (simp add: MerkleTreesByMonth_ok_def js_object_def)

lemma ok_dual_distinct:
  "MerkleTreesByMonth_dual_ok mi \<Longrightarrow> distinct (map fst mi) \<and> (\<forall>p \<in> set mi. tokens_ok (snd p))"
  by (simp add: MerkleTreesByMonth_dual_ok_def js_object_def tokens_ok_def)

lemma at_path_merkleTreesByUser:
  assumes "MerkleTreesByMonth_ok mi"
  shows "at_path (merkleTreesByUser_own mi) u d =
     (case map_of mi d of None \<Rightarrow> None | Some t \<Rightarrow> map_of (claims t) u)"
proof -
  from ok_distinct [OF assms]
  have "at_path (months_loop_own [] mi) u d =
     (case map_of mi d of
        None \<Rightarrow> at_path [] u d
      | Some t \<Rightarrow> (case map_of (claims t) u of None \<Rightarrow> at_path [] u d | Some c \<Rightarrow> Some c))"
    by (intro at_path_months_loop) simp_all
  then show ?thesis
    by (simp add: merkleTreesByUser_own_def at_path_def split: option.splits)
qed

lemma at_path_dual_merkleTreesByUser_dual:
  assumes "MerkleTreesByMonth_dual_ok mi"
  shows "at_path_dual (merkleTreesByUser_dual_own mi) u tok d =
     (case map_of mi d of
        None \<Rightarrow> None
      | Some bt \<Rightarrow> (case map_of bt tok of None \<Rightarrow> None | Some t \<Rightarrow> map_of (recipients t) u))"
proof -
  from ok_dual_distinct [OF assms]
  have "at_path_dual (months_loop_dual_own [] mi) u tok d =
     (case map_of mi d of
        None \<Rightarrow> at_path_dual [] u tok d
      | Some bt \<Rightarrow>
         (case map_of bt tok of
            None \<Rightarrow> at_path_dual [] u tok d
          | Some t \<Rightarrow> (case map_of (recipients t) u of
                         None \<Rightarrow> at_path_dual [] u tok d | Some r \<Rightarrow> Some r)))"
    by (intro at_path_dual_months_loop) simp_all
  then show ?thesis
    by (simp add: merkleTreesByUser_dual_own_def at_path_dual_def split: option.splits)
qed

lemma keys_merkleTreesByUser:
  "fst ` set (merkleTreesByUser_own mi) = (\<Union>p \<in> set mi. fst ` set (claims (snd p)))"
  by (simp add: merkleTreesByUser_own_def keys_months_loop)

lemma keys_merkleTreesByUser_dual:
  "fst ` set (merkleTreesByUser_dual_own mi) =
     (\<Union>p \<in> set mi. \<Union>q \<in> set (snd p). fst ` set (recipients (snd q)))"
  by (simp add: merkleTreesByUser_dual_own_def keys_months_loop_dual)

lemma slot_iff:
  assumes "MerkleTreesByMonth_ok mi"
  shows "at_path (merkleTreesByUser_own mi) u d = Some c
     \<longleftrightarrow> (\<exists>t. (d, t) \<in> set mi \<and> (u, c) \<in> set (claims t))"
proof
  assume "at_path (merkleTreesByUser_own mi) u d = Some c"
  then obtain t where "map_of mi d = Some t" and "map_of (claims t) u = Some c"
    by (auto simp: at_path_merkleTreesByUser [OF assms] split: option.splits)
  then show "\<exists>t. (d, t) \<in> set mi \<and> (u, c) \<in> set (claims t)"
    by (blast dest: map_of_SomeD)
next
  assume "\<exists>t. (d, t) \<in> set mi \<and> (u, c) \<in> set (claims t)"
  then obtain t where m: "(d, t) \<in> set mi" and r: "(u, c) \<in> set (claims t)" by blast
  from ok_distinct [OF assms] m have "distinct (map fst mi)" and "distinct (map fst (claims t))"
    by auto
  with m r have "map_of mi d = Some t" and "map_of (claims t) u = Some c" by simp_all
  then show "at_path (merkleTreesByUser_own mi) u d = Some c"
    by (simp add: at_path_merkleTreesByUser [OF assms])
qed

lemma slot_dual_iff:
  assumes "MerkleTreesByMonth_dual_ok mi"
  shows "at_path_dual (merkleTreesByUser_dual_own mi) u tok d = Some r
     \<longleftrightarrow> (\<exists>bt t. (d, bt) \<in> set mi \<and> (tok, t) \<in> set bt \<and> (u, r) \<in> set (recipients t))"
proof
  assume "at_path_dual (merkleTreesByUser_dual_own mi) u tok d = Some r"
  then obtain bt t where "map_of mi d = Some bt" and "map_of bt tok = Some t"
    and "map_of (recipients t) u = Some r"
    by (auto simp: at_path_dual_merkleTreesByUser_dual [OF assms] split: option.splits)
  then show "\<exists>bt t. (d, bt) \<in> set mi \<and> (tok, t) \<in> set bt \<and> (u, r) \<in> set (recipients t)"
    by (blast dest: map_of_SomeD)
next
  assume "\<exists>bt t. (d, bt) \<in> set mi \<and> (tok, t) \<in> set bt \<and> (u, r) \<in> set (recipients t)"
  then obtain bt t where m: "(d, bt) \<in> set mi" and k: "(tok, t) \<in> set bt"
    and r: "(u, r) \<in> set (recipients t)" by blast
  from ok_dual_distinct [OF assms] m have d1: "distinct (map fst mi)" and "tokens_ok bt"
    by auto
  with k have d2: "distinct (map fst bt)" and d3: "distinct (map fst (recipients t))"
    by (auto simp: tokens_ok_def)
  have "map_of mi d = Some bt" and "map_of bt tok = Some t" and "map_of (recipients t) u = Some r"
    using d1 d2 d3 m k r by simp_all
  then show "at_path_dual (merkleTreesByUser_dual_own mi) u tok d = Some r"
    by (simp add: at_path_dual_merkleTreesByUser_dual [OF assms])
qed

lemma count_merkleTreesByUser:
  assumes "MerkleTreesByMonth_ok mi"
  shows "count_claims (merkleTreesByUser_own mi) = (\<Sum>p\<leftarrow>mi. length (claims (snd p)))"
proof -
  from ok_distinct [OF assms]
  have "count_claims (months_loop_own [] mi) =
          count_claims ([] :: (string \<times> (string \<times> 'a Claim) list) list)
            + (\<Sum>p\<leftarrow>mi. length (claims (snd p)))"
    by (intro count_months_loop) (simp_all add: at_path_def)
  then show ?thesis by (simp add: merkleTreesByUser_own_def count_claims_def)
qed

lemma count_merkleTreesByUser_dual:
  assumes "MerkleTreesByMonth_dual_ok mi"
  shows "count_claims_dual (merkleTreesByUser_dual_own mi) =
           (\<Sum>p\<leftarrow>mi. \<Sum>q\<leftarrow>snd p. length (recipients (snd q)))"
proof -
  from ok_dual_distinct [OF assms]
  have "count_claims_dual (months_loop_dual_own [] mi) =
          count_claims_dual ([] :: (string \<times> (string \<times> (string \<times> 'a Recipient) list) list) list)
            + (\<Sum>p\<leftarrow>mi. \<Sum>q\<leftarrow>snd p. length (recipients (snd q)))"
    by (intro count_months_loop_dual) (simp_all add: at_path_dual_def)
  then show ?thesis by (simp add: merkleTreesByUser_dual_own_def count_claims_dual_def)
qed

lemma map_of_nonempty_has_key: "ps \<noteq> [] \<Longrightarrow> \<exists>k v. map_of ps k = Some v"
  by (cases ps) auto

lemma mapping_by_paths:
  assumes "no_empty idx"
  shows "MerkleTreesByUser_mapping idx u =
     (if \<forall>d. at_path idx u d = None then None else Some (at_path idx u))"
proof (cases "map_of idx u")
  case None
  then show ?thesis by (simp add: MerkleTreesByUser_mapping_def at_path_def)
next
  case (Some bm)
  then have "(u, bm) \<in> set idx" by (rule map_of_SomeD)
  with assms have "bm \<noteq> []" by (auto simp: no_empty_def)
  from map_of_nonempty_has_key [OF this] Some have "\<not> (\<forall>d. at_path idx u d = None)"
    by (auto simp: at_path_def)
  moreover from Some have "at_path idx u = map_of bm"
    by (auto simp: at_path_def)
  ultimately show ?thesis using Some by (simp add: MerkleTreesByUser_mapping_def)
qed

lemma mapping_dual_by_paths:
  assumes "no_empty_dual idx"
  shows "MerkleTreesByUser_dual_mapping idx u =
     (if \<forall>tok d. at_path_dual idx u tok d = None then None
      else Some (\<lambda>tok. if \<forall>d. at_path_dual idx u tok d = None then None
                        else Some (at_path_dual idx u tok)))"
proof (cases "map_of idx u")
  case None
  then show ?thesis by (simp add: MerkleTreesByUser_dual_mapping_def at_path_dual_def)
next
  case (Some bt)
  then have "(u, bt) \<in> set idx" by (rule map_of_SomeD)
  with assms have ne: "bt \<noteq> []" and nn: "no_empty bt" by (auto simp: no_empty_dual_def)
  from Some have ap: "at_path_dual idx u = at_path bt"
    by (intro ext) (simp add: at_path_dual_def)
  from map_of_nonempty_has_key [OF ne] obtain tok bm where tb: "map_of bt tok = Some bm" by blast
  then have "(tok, bm) \<in> set bt" by (rule map_of_SomeD)
  with nn have "bm \<noteq> []" by (auto simp: no_empty_def)
  from map_of_nonempty_has_key [OF this] obtain d r where "map_of bm d = Some r" by blast
  with tb have "at_path bt tok d = Some r" by (simp add: at_path_def)
  then have "\<not> (\<forall>tok d. at_path bt tok d = None)" by force
  then show ?thesis
    using Some
    by (simp add: MerkleTreesByUser_dual_mapping_def ap mapping_by_paths [OF nn, abs_def]
        cong: if_cong)
qed

lemma at_path_by_mapping:
  "MerkleTreesByMonth_ok mi \<Longrightarrow>
   at_path (merkleTreesByUser_own mi) u d =
     (case MerkleTreesByMonth_mapping mi d of None \<Rightarrow> None | Some f \<Rightarrow> f u)"
  by (simp add: at_path_merkleTreesByUser MerkleTreesByMonth_mapping_def split: option.splits)

lemma at_path_dual_by_mapping:
  "MerkleTreesByMonth_dual_ok mi \<Longrightarrow>
   at_path_dual (merkleTreesByUser_dual_own mi) u tok d =
     (case MerkleTreesByMonth_dual_mapping mi d of
        None \<Rightarrow> None
      | Some g \<Rightarrow> (case g tok of None \<Rightarrow> None | Some f \<Rightarrow> f u))"
  by (simp add: at_path_dual_merkleTreesByUser_dual MerkleTreesByMonth_dual_mapping_def
      split: option.splits)


subsection \<open>The loops of the program on every input\<close>

text \<open>
  A step of the loops of the program changes at most the slot it assigns, and adds at most
  the key of the recipient.
\<close>

lemma slot_assign_claim:
  "at_path (fst (assign_claim u d c st)) u' d' = Some x \<Longrightarrow>
   (u' = u \<and> d' = d \<and> x = c) \<or> at_path (fst st) u' d' = Some x"
  by (cases st)
     (auto simp: not_found_def set_property_def Let_def at_path_def map_of_map_entry update_conv'
       split: option.splits if_splits)

lemma key_assign_claim:
  "k \<in> fst ` set (fst (assign_claim u d c st)) \<Longrightarrow> k = u \<or> k \<in> fst ` set (fst st)"
  by (cases st)
     (auto simp: not_found_def set_property_def Let_def dom_map_entry dom_update
       split: option.splits if_splits)

lemma slot_claims_loop:
  "at_path (fst (claims_loop d st cs)) u' d' = Some x \<Longrightarrow>
   (d' = d \<and> (u', x) \<in> set cs) \<or> at_path (fst st) u' d' = Some x"
proof (induction cs arbitrary: st)
  case Nil
  then show ?case by simp
next
  case (Cons p cs)
  obtain u c where p: "p = (u, c)" by (cases p)
  from Cons.prems have "at_path (fst (claims_loop d (assign_claim u d c st) cs)) u' d' = Some x"
    by (simp add: p)
  from Cons.IH [OF this] show ?case
    using slot_assign_claim [of u d c st u' d' x] by (auto simp: p)
qed

lemma key_claims_loop:
  "k \<in> fst ` set (fst (claims_loop d st cs)) \<Longrightarrow> k \<in> fst ` set cs \<or> k \<in> fst ` set (fst st)"
proof (induction cs arbitrary: st)
  case Nil
  then show ?case by simp
next
  case (Cons p cs)
  obtain u c where p: "p = (u, c)" by (cases p)
  from Cons.prems have "k \<in> fst ` set (fst (claims_loop d (assign_claim u d c st) cs))"
    by (simp add: p)
  from Cons.IH [OF this] show ?case
    using key_assign_claim [of k u d c st] by (auto simp: p)
qed

lemma slot_months_loop:
  "at_path (fst (months_loop st byMonth)) u d = Some x \<Longrightarrow>
   (\<exists>tree. (d, tree) \<in> set byMonth \<and> (u, x) \<in> set (claims tree)) \<or> at_path (fst st) u d = Some x"
proof (induction byMonth arbitrary: st)
  case Nil
  then show ?case by simp
next
  case (Cons p ms)
  obtain m t where p: "p = (m, t)" by (cases p)
  from Cons.prems have "at_path (fst (months_loop (claims_loop m st (claims t)) ms)) u d = Some x"
    by (simp add: p)
  from Cons.IH [OF this] show ?case
    using slot_claims_loop [of m st "claims t" u d x] by (auto simp: p)
qed

lemma key_months_loop:
  "k \<in> fst ` set (fst (months_loop st byMonth)) \<Longrightarrow>
   (\<exists>p \<in> set byMonth. k \<in> fst ` set (claims (snd p))) \<or> k \<in> fst ` set (fst st)"
proof (induction byMonth arbitrary: st)
  case Nil
  then show ?case by simp
next
  case (Cons p ms)
  obtain m t where p: "p = (m, t)" by (cases p)
  from Cons.prems have "k \<in> fst ` set (fst (months_loop (claims_loop m st (claims t)) ms))"
    by (simp add: p)
  from Cons.IH [OF this] show ?case
    using key_claims_loop [of k m st "claims t"] by (auto simp: p)
qed

text \<open>
  Whatever the keys of the input are, a key of the output is a recipient key of the input,
  and a claim in a slot of the output is a claim that the input holds under that month for
  that recipient.
\<close>

lemma reshape_holds_input_claims_only:
  shows "user \<in> fst ` set (merkleTreesByUser byMonth)
           \<Longrightarrow> \<exists>p \<in> set byMonth. user \<in> fst ` set (claims (snd p))"
    and "at_path (merkleTreesByUser byMonth) user month = Some claim
           \<Longrightarrow> \<exists>tree. (month, tree) \<in> set byMonth \<and> (user, claim) \<in> set (claims tree)"
  using key_months_loop [of user "([], Object_prototype_names)" byMonth]
    slot_months_loop [of "([], Object_prototype_names)" byMonth user month claim]
  by (auto simp: merkleTreesByUser_def at_path_def)



text \<open>The same for the dual-schema variant.\<close>

lemma at_path_created:
  "at_path (if not_found ps inh k then set_property k [] ps else ps) k' d' = at_path ps k' d'"
  by (simp add: not_found_def set_property_def at_path_def update_conv')

lemma at_path_dual_created:
  "at_path_dual (if not_found ps inh k then set_property k [] ps else ps) k' t' d' =
   at_path_dual ps k' t' d'"
  by (simp add: not_found_def set_property_def at_path_dual_def at_path_def update_conv')

lemma slot_set_property:
  "at_path (AList.map_entry t (set_property d r) ps) t' d' = Some y \<Longrightarrow>
   (t' = t \<and> d' = d \<and> y = r) \<or> at_path ps t' d' = Some y"
  by (auto simp: at_path_def set_property_def map_of_map_entry update_conv'
      split: option.splits if_splits)

lemma at_path_dual_replaced:
  "map_of ps u = Some bt \<Longrightarrow>
   at_path_dual (AList.map_entry u (\<lambda>_. bt') ps) u' t' d' =
     (if u' = u then at_path bt' t' d' else at_path_dual ps u' t' d')"
  by (simp add: at_path_dual_def map_of_map_entry)

lemma slot_assign_recipient:
  assumes "at_path_dual (fst (assign_recipient u t d r st)) u' t' d' = Some x"
  shows "(u' = u \<and> t' = t \<and> d' = d \<and> x = r) \<or> at_path_dual (fst st) u' t' d' = Some x"
proof -
  obtain byUser inh where st: "st = (byUser, inh)" by (cases st)
  define byUser1 where
    "byUser1 = (if not_found byUser inh u then set_property u [] byUser else byUser)"
  have p1: "at_path_dual byUser1 u' t' d' = at_path_dual byUser u' t' d'"
    unfolding byUser1_def by (rule at_path_dual_created)
  show ?thesis
  proof (cases "map_of byUser1 u")
    case None
    with assms show ?thesis
      by (simp add: st byUser1_def [symmetric] p1)
  next
    case (Some byToken)
    define byToken1 where
      "byToken1 = (if not_found byToken inh t then set_property t [] byToken else byToken)"
    have p2: "at_path byToken1 t' d' = at_path byToken t' d'"
      unfolding byToken1_def by (rule at_path_created)
    show ?thesis
    proof (cases "map_of byToken1 t")
      case None
      with assms Some show ?thesis
        by (simp add: st byUser1_def [symmetric] byToken1_def [symmetric] p1)
    next
      case inner: (Some y)
      from assms Some inner
      have a: "at_path_dual
                 (AList.map_entry u (\<lambda>_. AList.map_entry t (set_property d r) byToken1) byUser1)
                 u' t' d' = Some x"
        by (simp add: st byUser1_def [symmetric] byToken1_def [symmetric])
      show ?thesis
      proof (cases "u' = u")
        case False
        with a Some show ?thesis by (simp add: at_path_dual_replaced p1 st)
      next
        case True
        with a Some
        have "at_path (AList.map_entry t (set_property d r) byToken1) t' d' = Some x"
          by (simp add: at_path_dual_replaced)
        from slot_set_property [OF this]
        have "(t' = t \<and> d' = d \<and> x = r) \<or> at_path byToken t' d' = Some x"
          by (simp add: p2)
        moreover have "at_path_dual byUser1 u t' d' = at_path byToken t' d'"
          using Some by (simp add: at_path_dual_def)
        ultimately show ?thesis
          using True p1 by (auto simp: st)
      qed
    qed
  qed
qed

lemma key_assign_recipient:
  assumes "k \<in> fst ` set (fst (assign_recipient u t d r st))"
  shows "k = u \<or> k \<in> fst ` set (fst st)"
proof -
  obtain byUser inh where st: "st = (byUser, inh)" by (cases st)
  define byUser1 where
    "byUser1 = (if not_found byUser inh u then set_property u [] byUser else byUser)"
  have k1: "fst ` set byUser1 \<subseteq> insert u (fst ` set byUser)"
    by (auto simp: byUser1_def set_property_def dom_update)
  have "fst ` set (fst (assign_recipient u t d r st)) = fst ` set byUser1"
  proof (cases "map_of byUser1 u")
    case None
    then show ?thesis by (simp add: st byUser1_def [symmetric])
  next
    case (Some byToken)
    define byToken1 where
      "byToken1 = (if not_found byToken inh t then set_property t [] byToken else byToken)"
    show ?thesis
    proof (cases "map_of byToken1 t")
      case None
      with Some show ?thesis
        by (simp add: st byUser1_def [symmetric] byToken1_def [symmetric])
    next
      case inner: (Some y)
      with Some show ?thesis
        by (simp add: st byUser1_def [symmetric] byToken1_def [symmetric] dom_map_entry)
    qed
  qed
  with assms k1 show ?thesis by (auto simp: st)
qed

lemma slot_recipients_loop:
  "at_path_dual (fst (recipients_loop d t st rs)) u' t' d' = Some x \<Longrightarrow>
   (t' = t \<and> d' = d \<and> (u', x) \<in> set rs) \<or> at_path_dual (fst st) u' t' d' = Some x"
proof (induction rs arbitrary: st)
  case Nil
  then show ?case by simp
next
  case (Cons p rs)
  obtain u r where p: "p = (u, r)" by (cases p)
  from Cons.prems
  have "at_path_dual (fst (recipients_loop d t (assign_recipient u t d r st) rs)) u' t' d' = Some x"
    by (simp add: p)
  from Cons.IH [OF this] show ?case
    using slot_assign_recipient [of u t d r st u' t' d' x] by (auto simp: p)
qed

lemma key_recipients_loop:
  "k \<in> fst ` set (fst (recipients_loop d t st rs)) \<Longrightarrow>
   k \<in> fst ` set rs \<or> k \<in> fst ` set (fst st)"
proof (induction rs arbitrary: st)
  case Nil
  then show ?case by simp
next
  case (Cons p rs)
  obtain u r where p: "p = (u, r)" by (cases p)
  from Cons.prems
  have "k \<in> fst ` set (fst (recipients_loop d t (assign_recipient u t d r st) rs))"
    by (simp add: p)
  from Cons.IH [OF this] show ?case
    using key_assign_recipient [of k u t d r st] by (auto simp: p)
qed

lemma slot_tokens_loop:
  "at_path_dual (fst (tokens_loop d st bt)) u' t' d' = Some x \<Longrightarrow>
   (d' = d \<and> (\<exists>tree. (t', tree) \<in> set bt \<and> (u', x) \<in> set (recipients tree)))
   \<or> at_path_dual (fst st) u' t' d' = Some x"
proof (induction bt arbitrary: st)
  case Nil
  then show ?case by simp
next
  case (Cons p bt)
  obtain t tree where p: "p = (t, tree)" by (cases p)
  from Cons.prems
  have "at_path_dual (fst (tokens_loop d (recipients_loop d t st (recipients tree)) bt)) u' t' d'
          = Some x"
    by (simp add: p)
  from Cons.IH [OF this] show ?case
    using slot_recipients_loop [of d t st "recipients tree" u' t' d' x] by (auto simp: p)
qed

lemma key_tokens_loop:
  "k \<in> fst ` set (fst (tokens_loop d st bt)) \<Longrightarrow>
   (\<exists>q \<in> set bt. k \<in> fst ` set (recipients (snd q))) \<or> k \<in> fst ` set (fst st)"
proof (induction bt arbitrary: st)
  case Nil
  then show ?case by simp
next
  case (Cons p bt)
  obtain t tree where p: "p = (t, tree)" by (cases p)
  from Cons.prems
  have "k \<in> fst ` set (fst (tokens_loop d (recipients_loop d t st (recipients tree)) bt))"
    by (simp add: p)
  from Cons.IH [OF this] show ?case
    using key_recipients_loop [of k d t st "recipients tree"] by (auto simp: p)
qed

lemma slot_months_loop_dual:
  "at_path_dual (fst (months_loop_dual st byMonth)) u t d = Some x \<Longrightarrow>
   (\<exists>byToken tree. (d, byToken) \<in> set byMonth \<and> (t, tree) \<in> set byToken
      \<and> (u, x) \<in> set (recipients tree))
   \<or> at_path_dual (fst st) u t d = Some x"
proof (induction byMonth arbitrary: st)
  case Nil
  then show ?case by simp
next
  case (Cons p ms)
  obtain m bt where p: "p = (m, bt)" by (cases p)
  from Cons.prems
  have "at_path_dual (fst (months_loop_dual (tokens_loop m st bt) ms)) u t d = Some x"
    by (simp add: p)
  from Cons.IH [OF this] show ?case
    using slot_tokens_loop [of m st bt u t d x] by (auto simp: p)
qed

lemma key_months_loop_dual:
  "k \<in> fst ` set (fst (months_loop_dual st byMonth)) \<Longrightarrow>
   (\<exists>p \<in> set byMonth. \<exists>q \<in> set (snd p). k \<in> fst ` set (recipients (snd q)))
   \<or> k \<in> fst ` set (fst st)"
proof (induction byMonth arbitrary: st)
  case Nil
  then show ?case by simp
next
  case (Cons p ms)
  obtain m bt where p: "p = (m, bt)" by (cases p)
  from Cons.prems
  have "k \<in> fst ` set (fst (months_loop_dual (tokens_loop m st bt) ms))"
    by (simp add: p)
  from Cons.IH [OF this] show ?case
    using key_tokens_loop [of k m st bt] by (auto simp: p)
qed

lemma reshape_dual_holds_input_claims_only:
  shows "user \<in> fst ` set (merkleTreesByUser_dual byMonth)
           \<Longrightarrow> \<exists>p \<in> set byMonth. \<exists>q \<in> set (snd p). user \<in> fst ` set (recipients (snd q))"
    and "at_path_dual (merkleTreesByUser_dual byMonth) user tok month = Some recipient
           \<Longrightarrow> \<exists>byToken tree. (month, byToken) \<in> set byMonth \<and> (tok, tree) \<in> set byToken
                  \<and> (user, recipient) \<in> set (recipients tree)"
  using key_months_loop_dual [of user "([], Object_prototype_names)" byMonth]
    slot_months_loop_dual [of "([], Object_prototype_names)" byMonth user tok month recipient]
  by (auto simp: merkleTreesByUser_dual_def at_path_dual_def)


subsection \<open>The loops of the program on lists that stand for objects\<close>

text \<open>
  No key of such a list resolves in \<^verbatim>\<open>Object.prototype\<close>, so every test of the loops is
  decided among the own properties, nothing is stored in \<^verbatim>\<open>Object.prototype\<close>, and the
  loops of the program compute what the loops on own properties compute.
\<close>

lemma proto_is_inherited: "''__proto__'' \<in> set Object_prototype_names"
  by (simp add: Object_prototype_names_def)

lemma set_property_update:
  "k \<noteq> ''__proto__'' \<Longrightarrow> set_property k v = AList.update k v"
  by (rule ext) (simp add: set_property_def)

lemma assign_claim_is_own:
  assumes "user \<notin> set Object_prototype_names" and "date \<notin> set Object_prototype_names"
  shows "assign_claim user date claim (byUser, Object_prototype_names) =
         (assign_claim_own user date claim byUser, Object_prototype_names)"
proof -
  from assms proto_is_inherited have u: "user \<noteq> ''__proto__''" and d: "date \<noteq> ''__proto__''"
    by auto
  show ?thesis
    using assms(1) u d
    by (simp add: assign_claim_own_def not_found_def set_property_update Let_def update_conv'
        split: option.splits)
qed

lemma claims_loop_is_own:
  "\<forall>k \<in> set (map fst cs). k \<notin> set Object_prototype_names \<Longrightarrow>
   date \<notin> set Object_prototype_names \<Longrightarrow>
   claims_loop date (byUser, Object_prototype_names) cs =
     (claims_loop_own date byUser cs, Object_prototype_names)"
proof (induction cs arbitrary: byUser)
  case Nil
  then show ?case by simp
next
  case (Cons c cs)
  obtain user claim where c: "c = (user, claim)" by (cases c)
  from Cons.prems c have u: "user \<notin> set Object_prototype_names" by simp
  from Cons.prems have r: "\<forall>k \<in> set (map fst cs). k \<notin> set Object_prototype_names" by simp
  show ?case
    by (simp only: c claims_loop.simps claims_loop_own.simps
        assign_claim_is_own [OF u Cons.prems(2)] Cons.IH [OF r Cons.prems(2)])
qed

lemma months_loop_is_own:
  "\<forall>p \<in> set byMonth. fst p \<notin> set Object_prototype_names \<and> js_object (claims (snd p)) \<Longrightarrow>
   months_loop (byUser, Object_prototype_names) byMonth =
     (months_loop_own byUser byMonth, Object_prototype_names)"
proof (induction byMonth arbitrary: byUser)
  case Nil
  then show ?case by simp
next
  case (Cons m ms)
  obtain date tree where m: "m = (date, tree)" by (cases m)
  from Cons.prems m have d: "date \<notin> set Object_prototype_names"
    and k: "\<forall>k \<in> set (map fst (claims tree)). k \<notin> set Object_prototype_names"
    by (simp_all add: js_object_def)
  from Cons.prems
  have r: "\<forall>p \<in> set ms. fst p \<notin> set Object_prototype_names \<and> js_object (claims (snd p))"
    by simp
  show ?case
    by (simp only: m months_loop.simps months_loop_own.simps
        claims_loop_is_own [OF k d] Cons.IH [OF r])
qed

lemma merkleTreesByUser_is_own:
  "MerkleTreesByMonth_ok byMonth \<Longrightarrow> merkleTreesByUser byMonth = merkleTreesByUser_own byMonth"
proof -
  assume ok: "MerkleTreesByMonth_ok byMonth"
  then have "\<forall>p \<in> set byMonth. fst p \<notin> set Object_prototype_names \<and> js_object (claims (snd p))"
    by (auto simp: MerkleTreesByMonth_ok_def js_object_def)
  from months_loop_is_own [OF this] show ?thesis
    by (simp add: merkleTreesByUser_def merkleTreesByUser_own_def)
qed

lemma map_entry_const:
  "map_of ps k = Some v \<Longrightarrow> AList.map_entry k (\<lambda>_. f v) ps = AList.map_entry k f ps"
  by (induction ps) (auto split: if_splits)

lemma assign_recipient_is_own:
  assumes "user \<notin> set Object_prototype_names" and "tok \<notin> set Object_prototype_names"
    and "date \<notin> set Object_prototype_names"
  shows "assign_recipient user tok date recipient (byUser, Object_prototype_names) =
         (assign_recipient_own user tok date recipient byUser, Object_prototype_names)"
proof -
  from assms proto_is_inherited have u: "user \<noteq> ''__proto__''" and t: "tok \<noteq> ''__proto__''"
    and d: "date \<noteq> ''__proto__''"
    by auto
  define byUser1 where
    "byUser1 = (if map_of byUser user = None then AList.update user [] byUser else byUser)"
  obtain byToken where bt: "map_of byUser1 user = Some byToken"
    by (cases "map_of byUser user") (auto simp: byUser1_def update_conv')
  define byToken1 where
    "byToken1 = (if map_of byToken tok = None then AList.update tok [] byToken else byToken)"
  obtain x where x: "map_of byToken1 tok = Some x"
    by (cases "map_of byToken tok") (auto simp: byToken1_def update_conv')
  have b1: "(if not_found byUser Object_prototype_names user then set_property user [] byUser
             else byUser) = byUser1"
    using assms(1) u by (simp add: not_found_def set_property_update byUser1_def)
  have b2: "(if not_found byToken Object_prototype_names tok then set_property tok [] byToken
             else byToken) = byToken1"
    using assms(2) t by (simp add: not_found_def set_property_update byToken1_def)
  have l: "assign_recipient user tok date recipient (byUser, Object_prototype_names) =
        (AList.map_entry user
           (\<lambda>_. AList.map_entry tok (AList.update date recipient) byToken1) byUser1,
         Object_prototype_names)"
    by (simp add: b1 bt b2 x set_property_update [OF d])
  have r: "assign_recipient_own user tok date recipient byUser =
        AList.map_entry user
           (\<lambda>byToken. AList.map_entry tok (AList.update date recipient)
              (if map_of byToken tok = None then AList.update tok [] byToken else byToken))
           byUser1"
    by (simp add: assign_recipient_own_def Let_def byUser1_def)
  show ?thesis
    unfolding l r byToken1_def
    using map_entry_const [OF bt, where f = "\<lambda>byToken. AList.map_entry tok (AList.update date recipient)
              (if map_of byToken tok = None then AList.update tok [] byToken else byToken)"]
    by simp
qed

lemma recipients_loop_is_own:
  "\<forall>k \<in> set (map fst rs). k \<notin> set Object_prototype_names \<Longrightarrow>
   tok \<notin> set Object_prototype_names \<Longrightarrow> date \<notin> set Object_prototype_names \<Longrightarrow>
   recipients_loop date tok (byUser, Object_prototype_names) rs =
     (recipients_loop_own date tok byUser rs, Object_prototype_names)"
proof (induction rs arbitrary: byUser)
  case Nil
  then show ?case by simp
next
  case (Cons c cs)
  obtain user recipient where c: "c = (user, recipient)" by (cases c)
  from Cons.prems c have u: "user \<notin> set Object_prototype_names" by simp
  from Cons.prems have r: "\<forall>k \<in> set (map fst cs). k \<notin> set Object_prototype_names" by simp
  show ?case
    by (simp only: c recipients_loop.simps recipients_loop_own.simps
        assign_recipient_is_own [OF u Cons.prems(2) Cons.prems(3)]
        Cons.IH [OF r Cons.prems(2) Cons.prems(3)])
qed

lemma tokens_loop_is_own:
  "\<forall>q \<in> set bt. fst q \<notin> set Object_prototype_names \<and> js_object (recipients (snd q)) \<Longrightarrow>
   date \<notin> set Object_prototype_names \<Longrightarrow>
   tokens_loop date (byUser, Object_prototype_names) bt =
     (tokens_loop_own date byUser bt, Object_prototype_names)"
proof (induction bt arbitrary: byUser)
  case Nil
  then show ?case by simp
next
  case (Cons q qs)
  obtain tok tree where q: "q = (tok, tree)" by (cases q)
  from Cons.prems q have t: "tok \<notin> set Object_prototype_names"
    and k: "\<forall>k \<in> set (map fst (recipients tree)). k \<notin> set Object_prototype_names"
    by (simp_all add: js_object_def)
  from Cons.prems
  have r: "\<forall>q \<in> set qs. fst q \<notin> set Object_prototype_names \<and> js_object (recipients (snd q))"
    by simp
  show ?case
    by (simp only: q tokens_loop.simps tokens_loop_own.simps
        recipients_loop_is_own [OF k t Cons.prems(2)] Cons.IH [OF r Cons.prems(2)])
qed

lemma months_loop_dual_is_own:
  "\<forall>p \<in> set byMonth. fst p \<notin> set Object_prototype_names
      \<and> (\<forall>q \<in> set (snd p). fst q \<notin> set Object_prototype_names
            \<and> js_object (recipients (snd q))) \<Longrightarrow>
   months_loop_dual (byUser, Object_prototype_names) byMonth =
     (months_loop_dual_own byUser byMonth, Object_prototype_names)"
proof (induction byMonth arbitrary: byUser)
  case Nil
  then show ?case by simp
next
  case (Cons m ms)
  obtain date bt where m: "m = (date, bt)" by (cases m)
  from Cons.prems m have d: "date \<notin> set Object_prototype_names"
    and k: "\<forall>q \<in> set bt. fst q \<notin> set Object_prototype_names \<and> js_object (recipients (snd q))"
    by simp_all
  from Cons.prems
  have r: "\<forall>p \<in> set ms. fst p \<notin> set Object_prototype_names
      \<and> (\<forall>q \<in> set (snd p). fst q \<notin> set Object_prototype_names
            \<and> js_object (recipients (snd q)))"
    by simp
  show ?case
    by (simp only: m months_loop_dual.simps months_loop_dual_own.simps
        tokens_loop_is_own [OF k d] Cons.IH [OF r])
qed

lemma merkleTreesByUser_dual_is_own:
  "MerkleTreesByMonth_dual_ok byMonth \<Longrightarrow>
   merkleTreesByUser_dual byMonth = merkleTreesByUser_dual_own byMonth"
proof -
  assume ok: "MerkleTreesByMonth_dual_ok byMonth"
  then have "\<forall>p \<in> set byMonth. fst p \<notin> set Object_prototype_names
      \<and> (\<forall>q \<in> set (snd p). fst q \<notin> set Object_prototype_names
            \<and> js_object (recipients (snd q)))"
    by (auto simp: MerkleTreesByMonth_dual_ok_def js_object_def)
  from months_loop_dual_is_own [OF this] show ?thesis
    by (simp add: merkleTreesByUser_dual_def merkleTreesByUser_dual_own_def)
qed

text \<open>
  On lists that stand for objects the reshape is a pivot: the keys of the output are
  recipients of the input, a slot of the output holds a claim exactly when the input holds
  it under that month for that recipient, the output holds as many claims as the input, and
  its lists have distinct keys.
\<close>

lemma reshape_pivot_on_objects:
  assumes ok: "MerkleTreesByMonth_ok byMonth"
  shows "user \<in> fst ` set (merkleTreesByUser byMonth)
           \<Longrightarrow> \<exists>p \<in> set byMonth. user \<in> fst ` set (claims (snd p))"
    and "at_path (merkleTreesByUser byMonth) user month = Some claim
           \<longleftrightarrow> (\<exists>tree. (month, tree) \<in> set byMonth \<and> (user, claim) \<in> set (claims tree))"
    and "count_claims (merkleTreesByUser byMonth) = (\<Sum>p\<leftarrow>byMonth. length (claims (snd p)))"
    and "nested_distinct (merkleTreesByUser byMonth)"
proof -
  note e = merkleTreesByUser_is_own [OF ok]
  show "\<exists>p \<in> set byMonth. user \<in> fst ` set (claims (snd p))"
    if "user \<in> fst ` set (merkleTreesByUser byMonth)"
    using that unfolding e keys_merkleTreesByUser by blast
  show "at_path (merkleTreesByUser byMonth) user month = Some claim
           \<longleftrightarrow> (\<exists>tree. (month, tree) \<in> set byMonth \<and> (user, claim) \<in> set (claims tree))"
    unfolding e using ok by (rule slot_iff)
  show "count_claims (merkleTreesByUser byMonth) = (\<Sum>p\<leftarrow>byMonth. length (claims (snd p)))"
    unfolding e using ok by (rule count_merkleTreesByUser)
  show "nested_distinct (merkleTreesByUser byMonth)"
    unfolding e by (rule nested_distinct_merkleTreesByUser)
qed

lemma reshape_dual_pivot_on_objects:
  assumes ok: "MerkleTreesByMonth_dual_ok byMonth"
  shows "user \<in> fst ` set (merkleTreesByUser_dual byMonth)
           \<Longrightarrow> \<exists>p \<in> set byMonth. \<exists>q \<in> set (snd p). user \<in> fst ` set (recipients (snd q))"
    and "at_path_dual (merkleTreesByUser_dual byMonth) user tok month = Some recipient
           \<longleftrightarrow> (\<exists>byToken tree. (month, byToken) \<in> set byMonth \<and> (tok, tree) \<in> set byToken
                  \<and> (user, recipient) \<in> set (recipients tree))"
    and "count_claims_dual (merkleTreesByUser_dual byMonth)
            = (\<Sum>p\<leftarrow>byMonth. \<Sum>q\<leftarrow>snd p. length (recipients (snd q)))"
    and "nested_distinct_dual (merkleTreesByUser_dual byMonth)"
proof -
  note e = merkleTreesByUser_dual_is_own [OF ok]
  show "\<exists>p \<in> set byMonth. \<exists>q \<in> set (snd p). user \<in> fst ` set (recipients (snd q))"
    if "user \<in> fst ` set (merkleTreesByUser_dual byMonth)"
    using that unfolding e keys_merkleTreesByUser_dual by blast
  show "at_path_dual (merkleTreesByUser_dual byMonth) user tok month = Some recipient
           \<longleftrightarrow> (\<exists>byToken tree. (month, byToken) \<in> set byMonth \<and> (tok, tree) \<in> set byToken
                  \<and> (user, recipient) \<in> set (recipients tree))"
    unfolding e using ok by (rule slot_dual_iff)
  show "count_claims_dual (merkleTreesByUser_dual byMonth)
            = (\<Sum>p\<leftarrow>byMonth. \<Sum>q\<leftarrow>snd p. length (recipients (snd q)))"
    unfolding e using ok by (rule count_merkleTreesByUser_dual)
  show "nested_distinct_dual (merkleTreesByUser_dual byMonth)"
    unfolding e by (rule nested_distinct_dual_merkleTreesByUser_dual)
qed

text \<open>
  Two lists that stand for objects and for the same mapping, whatever the order of their
  keys, are reshaped to outputs that stand for the same mapping.
\<close>

lemma reshape_order_on_objects:
  assumes "MerkleTreesByMonth_ok a" and "MerkleTreesByMonth_ok b"
    and "MerkleTreesByMonth_mapping a = MerkleTreesByMonth_mapping b"
  shows "MerkleTreesByUser_mapping (merkleTreesByUser a)
           = MerkleTreesByUser_mapping (merkleTreesByUser b)"
proof -
  from assms have "at_path (merkleTreesByUser_own a) = at_path (merkleTreesByUser_own b)"
    by (intro ext) (simp add: at_path_by_mapping)
  then have "MerkleTreesByUser_mapping (merkleTreesByUser_own a)
           = MerkleTreesByUser_mapping (merkleTreesByUser_own b)"
    by (intro ext) (simp only: mapping_by_paths [OF no_empty_merkleTreesByUser])
  then show ?thesis
    by (simp only: merkleTreesByUser_is_own [OF assms(1)] merkleTreesByUser_is_own [OF assms(2)])
qed

lemma reshape_dual_order_on_objects:
  assumes "MerkleTreesByMonth_dual_ok a" and "MerkleTreesByMonth_dual_ok b"
    and "MerkleTreesByMonth_dual_mapping a = MerkleTreesByMonth_dual_mapping b"
  shows "MerkleTreesByUser_dual_mapping (merkleTreesByUser_dual a)
           = MerkleTreesByUser_dual_mapping (merkleTreesByUser_dual b)"
proof -
  from assms
  have "at_path_dual (merkleTreesByUser_dual_own a) = at_path_dual (merkleTreesByUser_dual_own b)"
    by (intro ext) (simp add: at_path_dual_by_mapping)
  then have "MerkleTreesByUser_dual_mapping (merkleTreesByUser_dual_own a)
           = MerkleTreesByUser_dual_mapping (merkleTreesByUser_dual_own b)"
    by (intro ext) (simp only: mapping_dual_by_paths [OF no_empty_dual_merkleTreesByUser_dual])
  then show ?thesis
    by (simp only: merkleTreesByUser_dual_is_own [OF assms(1)]
        merkleTreesByUser_dual_is_own [OF assms(2)])
qed


section \<open>Properties of the month index builder\<close>

lemma month_files_filter:
  "month_files parse date idx (filter (\<lambda>el. file_name el = ''merkle-tree.json'') els) =
   month_files parse date idx els"
  by (induction els arbitrary: idx) (auto split: sum.splits)

lemma month_files_unrecognized:
  "\<forall>el \<in> set els. file_name el \<noteq> ''merkle-tree.json'' \<Longrightarrow> month_files parse date idx els = Inr idx"
  by (induction els arbitrary: idx) auto

lemma set_property_keys:
  "fst ` set (set_property k v ps) \<subseteq> insert k (fst ` set ps)"
  by (auto simp: set_property_def dom_update)

lemma month_files_keys:
  "month_files parse date idx els = Inr idx' \<Longrightarrow> k \<in> fst ` set idx' \<Longrightarrow>
   k \<in> fst ` set idx \<or> (k = date \<and> (\<exists>el \<in> set els. file_name el = ''merkle-tree.json''))"
proof (induction els arbitrary: idx)
  case Nil
  then show ?case by simp
next
  case (Cons el els)
  show ?case
  proof (cases "file_name el = ''merkle-tree.json''")
    case True
    with Cons.prems obtain t where "parse (file_text el) = Inr t"
      and "month_files parse date (set_property date t idx) els = Inr idx'"
      by (auto split: sum.splits)
    from Cons.IH [OF this(2) Cons.prems(2)] True set_property_keys [of date t idx]
    show ?thesis by auto
  next
    case False
    with Cons.prems have "month_files parse date idx els = Inr idx'" by simp
    from Cons.IH [OF this Cons.prems(2)] show ?thesis by auto
  qed
qed

text \<open>A directory named \<^verbatim>\<open>__proto__\<close> leaves no entry in the index.\<close>

lemma month_named_proto_leaves_no_entry:
  "month_files parse ''__proto__'' byMonth els = Inr byMonth' \<Longrightarrow> byMonth' = byMonth"
  by (induction els arbitrary: byMonth) (auto simp: set_property_def split: sum.splits if_splits)

lemma entry_files_recognized_only:
  "entry_files (recognized_only entry) =
     (case entry_files entry of
        Inl e \<Rightarrow> Inl e
      | Inr els \<Rightarrow> Inr (filter (\<lambda>el. file_name el = ''merkle-tree.json'') els))"
  by (simp add: entry_files_def recognized_only_def split: entry_object.splits)

lemma entries_loop_recognized_only:
  "entries_loop parse idx (map recognized_only entries) = entries_loop parse idx entries"
proof (induction entries arbitrary: idx)
  case Nil
  then show ?case by simp
next
  case (Cons entry entries)
  have n: "entry_name (recognized_only entry) = entry_name entry"
    by (simp add: recognized_only_def)
  show ?case
    by (simp add: entry_files_recognized_only n month_files_filter Cons.IH split: sum.splits)
qed

lemma entries_loop_keys:
  "entries_loop parse idx entries = Inr idx' \<Longrightarrow> k \<in> fst ` set idx' \<Longrightarrow>
   k \<in> fst ` set idx \<or>
   (\<exists>entry \<in> set entries. \<exists>els. entry_name entry = k \<and> entry_object entry = Object_entries els
      \<and> (\<exists>el \<in> set els. file_name el = ''merkle-tree.json''))"
proof (induction entries arbitrary: idx)
  case Nil
  then show ?case by simp
next
  case (Cons entry entries)
  from Cons.prems(1) obtain els idx1 where ef: "entry_files entry = Inr els"
    and mf: "month_files parse (entry_name entry) idx els = Inr idx1"
    and rest: "entries_loop parse idx1 entries = Inr idx'"
    by (auto split: sum.splits)
  from ef have eo: "entry_object entry = Object_entries els"
    by (auto simp: entry_files_def split: entry_object.splits)
  from Cons.IH [OF rest Cons.prems(2)] show ?case
  proof
    assume "k \<in> fst ` set idx1"
    from month_files_keys [OF mf this] eo show ?thesis by auto
  next
    assume "\<exists>entry \<in> set entries. \<exists>els. entry_name entry = k \<and> entry_object entry = Object_entries els
      \<and> (\<exists>el \<in> set els. file_name el = ''merkle-tree.json'')"
    then show ?thesis by auto
  qed
qed

lemma entries_loop_append:
  "entries_loop parse idx (pre @ rest) =
     (case entries_loop parse idx pre of Inl e \<Rightarrow> Inl e | Inr idx' \<Rightarrow> entries_loop parse idx' rest)"
  by (induction pre arbitrary: idx) (auto split: sum.splits)

lemma entries_loop_dual_append:
  "entries_loop_dual parse idx (pre @ rest) =
     (case entries_loop_dual parse idx pre of
        Inl e \<Rightarrow> Inl e | Inr idx' \<Rightarrow> entries_loop_dual parse idx' rest)"
  by (induction pre arbitrary: idx) (auto split: sum.splits)

lemma entry_files_missing:
  "entry_object entry = Object_null \<or> entry_object entry = Object_without_entries \<Longrightarrow>
   entry_files entry = Inl (missing_entries_error entry)"
  by (auto simp: entry_files_def missing_entries_error_def)

lemma builder_throws:
  assumes "entry_object entry = Object_null \<or> entry_object entry = Object_without_entries"
  shows "\<exists>e. merkleTreesByMonth parse (pre @ entry # post) = Inl e"
    and "merkleTreesByMonth parse pre = Inr idx \<Longrightarrow>
         merkleTreesByMonth parse (pre @ entry # post) = Inl (missing_entries_error entry)"
  using entry_files_missing [OF assms]
  by (auto simp: merkleTreesByMonth_def entries_loop_append split: sum.splits)

lemma builder_dual_throws:
  assumes "entry_object entry = Object_null \<or> entry_object entry = Object_without_entries"
  shows "\<exists>e. merkleTreesByMonth_dual parse (pre @ entry # post) = Inl e"
    and "merkleTreesByMonth_dual parse pre = Inr idx \<Longrightarrow>
         merkleTreesByMonth_dual parse (pre @ entry # post) = Inl (missing_entries_error entry)"
  using entry_files_missing [OF assms]
  by (auto simp: merkleTreesByMonth_dual_def entries_loop_dual_append split: sum.splits)

lemma token_file_empty:
  "token_file parse fname tok date el st = Inr st' \<Longrightarrow> fst st = [] \<Longrightarrow> fst st' = []"
  by (auto simp: token_file_def Let_def split: if_splits sum.splits)

lemma month_files_dual_empty:
  "month_files_dual parse date st els = Inr st' \<Longrightarrow> fst st = [] \<Longrightarrow> fst st' = []"
proof (induction els arbitrary: st)
  case Nil
  then show ?case by simp
next
  case (Cons el els)
  from Cons.prems(1) obtain st1 st2
    where t1: "token_file parse ''merkle-tree-veAUXO.json'' ''veAUXO'' date el st = Inr st1"
      and t2: "token_file parse ''merkle-tree-xAUXO.json'' ''xAUXO'' date el st1 = Inr st2"
      and rest: "month_files_dual parse date st2 els = Inr st'"
    by (auto split: sum.splits)
  from token_file_empty [OF t1 Cons.prems(2)] have "fst st1 = []" .
  from token_file_empty [OF t2 this] have "fst st2 = []" .
  from Cons.IH [OF rest this] show ?case .
qed

lemma entries_loop_dual_empty:
  "entries_loop_dual parse st entries = Inr st' \<Longrightarrow> fst st = [] \<Longrightarrow> fst st' = []"
proof (induction entries arbitrary: st)
  case Nil
  then show ?case by simp
next
  case (Cons entry entries)
  from Cons.prems(1) obtain els st1
    where mf: "month_files_dual parse (entry_name entry) st els = Inr st1"
      and rest: "entries_loop_dual parse st1 entries = Inr st'"
    by (auto split: sum.splits)
  from month_files_dual_empty [OF mf Cons.prems(2)] have "fst st1 = []" .
  from Cons.IH [OF rest this] show ?case .
qed

text \<open>
  In a directory named as a member of \<^verbatim>\<open>Object.prototype\<close> the token files are stored on
  that member: the dual-schema builder does not throw and returns the empty index.
\<close>

lemma dual_builder_on_inherited_month:
  "merkleTreesByMonth_dual example_parse_dual
     [\<lparr>entry_name = ''constructor'', entry_type = ''tree'',
       entry_object = Object_entries
         [\<lparr>file_name = ''merkle-tree-veAUXO.json'', file_text = ''ve''\<rparr>,
          \<lparr>file_name = ''merkle-tree-xAUXO.json'', file_text = ''x''\<rparr>]\<rparr>]
   = Inr []"
  by (simp add: merkleTreesByMonth_dual_def entry_files_def token_file_def
      example_parse_dual_def Object_prototype_names_def)

text \<open>The dual-schema builder never returns an index with an entry.\<close>

lemma merkleTreesByMonth_dual_never_fills:
  "merkleTreesByMonth_dual parse merkleTrees = Inr byMonth \<Longrightarrow> byMonth = []"
  by (auto simp: merkleTreesByMonth_dual_def split: sum.splits dest!: entries_loop_dual_empty)


section \<open>Properties of the publisher and of the run\<close>

lemma request_GetRef:
  "request client (GetRef owner repo ref) w =
     (response client w (GetRef owner repo ref),
      w\<lparr>log := log w @ [(GetRef owner repo ref, response client w (GetRef owner repo ref))]\<rparr>)"
  by (simp add: request_def effect_def Let_def)

lemma request_CreateBlob:
  "request client (CreateBlob owner repo content encoding) w =
     (response client w (CreateBlob owner repo content encoding),
      w\<lparr>log := log w @ [(CreateBlob owner repo content encoding,
                         response client w (CreateBlob owner repo content encoding))]\<rparr>)"
  by (simp add: request_def effect_def Let_def)

lemma request_CreateTree:
  "request client (CreateTree owner repo items base) w =
     (response client w (CreateTree owner repo items base),
      w\<lparr>log := log w @ [(CreateTree owner repo items base,
                         response client w (CreateTree owner repo items base))]\<rparr>)"
  by (simp add: request_def effect_def Let_def)

lemma request_CreateCommit:
  "request client (CreateCommit owner repo msg tree parents) w =
     (response client w (CreateCommit owner repo msg tree parents),
      w\<lparr>log := log w @ [(CreateCommit owner repo msg tree parents,
                         response client w (CreateCommit owner repo msg tree parents))]\<rparr>)"
  by (simp add: request_def effect_def Let_def)

lemma request_UpdateRef:
  "request client (UpdateRef owner repo ref commit) w =
     (case response client w (UpdateRef owner repo ref commit) of
        Inl e \<Rightarrow> (Inl e, w\<lparr>log := log w @ [(UpdateRef owner repo ref commit, Inl e)]\<rparr>)
      | Inr s \<Rightarrow> (Inr s, w\<lparr>refs := AList.update (owner, repo, ref) commit (refs w),
                           log := log w @ [(UpdateRef owner repo ref commit, Inr s)]\<rparr>))"
  by (simp add: request_def effect_def Let_def split: sum.splits)

lemmas request_simps =
  request_GetRef request_CreateBlob request_CreateTree request_CreateCommit request_UpdateRef

lemma response_GetRef_Inr:
  "response client w (GetRef owner repo ref) = Inr tip \<longleftrightarrow>
     fault client (GetRef owner repo ref) = None \<and> map_of (refs w) (owner, repo, ref) = Some tip"
  by (auto simp: response_def split: option.splits)

lemma response_log [simp]: "response client (w\<lparr>log := l\<rparr>) call = response client w call"
  by (simp add: response_def split: option.splits git_call.splits)

lemma response_UpdateRef_Inr:
  "response client w (UpdateRef owner repo ref commit) = Inr s \<Longrightarrow> s = commit"
  by (auto simp: response_def split: option.splits)

text \<open>The six ways a publish can end: a failure at one of the five steps, or success.\<close>

lemma publish_cases:
  assumes "publish client owner repo branchInput content w = (r, w')"
  defines "ref \<equiv> ''heads/'' @ branchInput"
  defines "item \<equiv> \<lambda>blob. \<lparr>path = ''reports/merkle-trees-by-user.json'', mode = ''100644'',
            type' = ''blob'', sha = blob\<rparr>"
  defines "msg \<equiv> ''**GENERATED** Arrange Rewards by User''"
  shows
   "(\<exists>e. r = Inl e \<and> refs w' = refs w \<and> log w' = log w @ [(GetRef owner repo ref, Inl e)])
  \<or> (\<exists>e tip. r = Inl e \<and> refs w' = refs w \<and> log w' = log w @
        [(GetRef owner repo ref, Inr tip), (CreateBlob owner repo content ''utf-8'', Inl e)])
  \<or> (\<exists>e tip blob. r = Inl e \<and> refs w' = refs w \<and> log w' = log w @
        [(GetRef owner repo ref, Inr tip), (CreateBlob owner repo content ''utf-8'', Inr blob),
         (CreateTree owner repo [item blob] tip, Inl e)])
  \<or> (\<exists>e tip blob tree. r = Inl e \<and> refs w' = refs w \<and> log w' = log w @
        [(GetRef owner repo ref, Inr tip), (CreateBlob owner repo content ''utf-8'', Inr blob),
         (CreateTree owner repo [item blob] tip, Inr tree),
         (CreateCommit owner repo msg tree [tip], Inl e)])
  \<or> (\<exists>e tip blob tree commit. r = Inl e \<and> refs w' = refs w \<and> log w' = log w @
        [(GetRef owner repo ref, Inr tip), (CreateBlob owner repo content ''utf-8'', Inr blob),
         (CreateTree owner repo [item blob] tip, Inr tree),
         (CreateCommit owner repo msg tree [tip], Inr commit),
         (UpdateRef owner repo ref commit, Inl e)])
  \<or> (\<exists>tip blob tree commit. r = Inr () \<and> map_of (refs w) (owner, repo, ref) = Some tip
        \<and> refs w' = AList.update (owner, repo, ref) commit (refs w) \<and> log w' = log w @
        [(GetRef owner repo ref, Inr tip), (CreateBlob owner repo content ''utf-8'', Inr blob),
         (CreateTree owner repo [item blob] tip, Inr tree),
         (CreateCommit owner repo msg tree [tip], Inr commit),
         (UpdateRef owner repo ref commit, Inr commit)])"
proof (cases "response client w (GetRef owner repo ref)")
  case (Inl e)
  with assms(1) show ?thesis
    by (auto simp: publish_def request_simps ref_def)
next
  case tip: (Inr tip)
  then have tipref: "map_of (refs w) (owner, repo, ref) = Some tip"
    by (simp add: response_GetRef_Inr)
  show ?thesis
  proof (cases "response client w (CreateBlob owner repo content ''utf-8'')")
    case (Inl e)
    with assms(1) tip show ?thesis
      by (auto simp: publish_def request_simps ref_def)
  next
    case blob: (Inr blob)
    show ?thesis
    proof (cases "response client w (CreateTree owner repo [item blob] tip)")
      case (Inl e)
      with assms(1) tip blob show ?thesis
        by (auto simp: publish_def request_simps ref_def item_def)
    next
      case tree: (Inr tree)
      show ?thesis
      proof (cases "response client w (CreateCommit owner repo msg tree [tip])")
        case (Inl e)
        with assms(1) tip blob tree show ?thesis
          by (auto simp: publish_def request_simps ref_def item_def msg_def)
      next
        case commit: (Inr commit)
        show ?thesis
        proof (cases "response client w (UpdateRef owner repo ref commit)")
          case (Inl e)
          with assms(1) tip blob tree commit show ?thesis
            by (auto simp: publish_def request_simps ref_def item_def msg_def)
        next
          case (Inr s)
          with response_UpdateRef_Inr [OF this] assms(1) tip blob tree commit tipref show ?thesis
            by (auto simp: publish_def request_simps ref_def item_def msg_def)
        qed
      qed
    qed
  qed
qed

lemma run_body_cases:
  "run_body build reshape env w = (r, w') \<Longrightarrow>
   (w' = w \<and> (\<exists>e. r = Inl e)) \<or>
   (\<exists>client owner repo branchInput content.
      publish client owner repo branchInput content w = (r, w'))"
  by (auto simp: run_body_def split: sum.splits)

lemma publish_discipline_publish:
  assumes "publish client owner repo branchInput content w = (r, w')"
  shows "publish_discipline w r w'"
  using publish_cases [OF assms]
  unfolding publish_discipline_def
  apply (elim disjE exE conjE)
       apply (rule exI [where x = "drop (length (log w)) (log w')"], simp)
      apply (rule exI [where x = "drop (length (log w)) (log w')"], simp)
     apply (rule exI [where x = "drop (length (log w)) (log w')"], simp)
    apply (rule exI [where x = "drop (length (log w)) (log w')"], simp)
   apply (rule exI [where x = "drop (length (log w)) (log w')"], simp)
  apply (rule exI [where x = "drop (length (log w)) (log w')"], simp)
  done

lemma publish_discipline_run_body:
  assumes "run_body build reshape env w = (r, w')"
  shows "publish_discipline w r w'"
  using run_body_cases [OF assms]
proof
  assume "w' = w \<and> (\<exists>e. r = Inl e)"
  then show ?thesis by (auto simp: publish_discipline_def)
next
  assume "\<exists>client owner repo branchInput content.
      publish client owner repo branchInput content w = (r, w')"
  then show ?thesis by (auto intro: publish_discipline_publish)
qed

lemma single_fixed_commit_publish:
  assumes "publish client owner repo branchInput content w = (Inr (), w')"
  shows "single_fixed_commit w w'"
  using publish_cases [OF assms]
  unfolding single_fixed_commit_def
  by (elim disjE exE conjE) simp_all

lemma single_fixed_commit_run_body:
  assumes "run_body build reshape env w = (Inr (), w')"
  shows "single_fixed_commit w w'"
  using run_body_cases [OF assms] by (auto intro: single_fixed_commit_publish)

lemma publish_succeeds:
  assumes "\<forall>call. fault client call = None"
    and "map_of (refs w) (owner, repo, ''heads/'' @ branchInput) = Some tip"
  shows "publish client owner repo branchInput content w =
     (let blob = new_sha client (CreateBlob owner repo content ''utf-8'');
          items = [\<lparr>path = ''reports/merkle-trees-by-user.json'', mode = ''100644'',
                    type' = ''blob'', sha = blob\<rparr>];
          tree = new_sha client (CreateTree owner repo items tip);
          message = ''**GENERATED** Arrange Rewards by User'';
          commit = new_sha client (CreateCommit owner repo message tree [tip])
      in (Inr (),
          w\<lparr>refs := AList.update (owner, repo, ''heads/'' @ branchInput) commit (refs w),
            log := log w @
              [(GetRef owner repo (''heads/'' @ branchInput), Inr tip),
               (CreateBlob owner repo content ''utf-8'', Inr blob),
               (CreateTree owner repo items tip, Inr tree),
               (CreateCommit owner repo message tree [tip], Inr commit),
               (UpdateRef owner repo (''heads/'' @ branchInput) commit, Inr commit)]\<rparr>))"
  using assms by (simp add: publish_def request_simps response_def Let_def)

lemma publish_published:
  assumes "\<forall>call. fault client call = None"
    and "map_of (refs w) (owner, repo, ''heads/'' @ branchInput) = Some tip"
  shows "publish client owner repo branchInput content w =
           (Inr (), published client owner repo branchInput content tip w)"
  using publish_succeeds [OF assms] by (simp add: published_def Let_def)

lemma run_body_configured_throws:
  assumes "configured env owner repo branchInput client"
    and "graphql client owner repo = Inr merkleTrees"
    and "build (JSON_parse env) merkleTrees = Inl e"
  shows "run_body build reshape env w = (Inl e, w)"
  using assms by (auto simp: configured_def run_body_def)

lemma run_body_configured_publishes:
  assumes "configured env owner repo branchInput client"
    and "graphql client owner repo = Inr merkleTrees"
    and "build (JSON_parse env) merkleTrees = Inr byMonth"
  shows "run_body build reshape env w =
     publish client owner repo branchInput (JSON_stringify env (reshape byMonth)) w"
  using assms by (auto simp: configured_def run_body_def)


section \<open>Facts about the example data\<close>

lemmas example_defs =
  example_byMonth_def example_byMonth_reordered_def example_tree_def
  example_byMonth_dual_def example_byMonth_dual_reordered_def example_tree_dual_def

lemma example_byMonth_ok: "MerkleTreesByMonth_ok example_byMonth"
  by (simp add: MerkleTreesByMonth_ok_def js_object_def Object_prototype_names_def example_defs)

lemma example_byMonth_reordered_ok: "MerkleTreesByMonth_ok example_byMonth_reordered"
  by (simp add: MerkleTreesByMonth_ok_def js_object_def Object_prototype_names_def example_defs)

lemma example_byMonth_dual_ok: "MerkleTreesByMonth_dual_ok example_byMonth_dual"
  by (simp add: MerkleTreesByMonth_dual_ok_def js_object_def Object_prototype_names_def example_defs)

lemma example_byMonth_dual_reordered_ok: "MerkleTreesByMonth_dual_ok example_byMonth_dual_reordered"
  by (simp add: MerkleTreesByMonth_dual_ok_def js_object_def Object_prototype_names_def example_defs)

lemmas run_defs =
  try_block_def try_block_dual_def run_def run_dual_def run_body_def finish_def
  example_env_def example_inputs_def example_client_def example_client_rejecting_def

lemmas publish_eval =
  publish_def request_def response_def effect_def Let_def example_sha_def
  example_remote_def example_remote_without_branch_def

lemmas builder_eval =
  merkleTreesByMonth_def merkleTreesByMonth_dual_def entry_files_def token_file_def
  set_property_def Object_prototype_names_def
  example_merkleTrees_def example_merkleTrees_dual_def example_file_at_root_def
  example_parse_def example_parse_to_def example_parse_dual_def

lemmas reshape_eval =
  merkleTreesByUser_def merkleTreesByUser_dual_def not_found_def set_property_def
  Object_prototype_names_def Let_def


section \<open>The claims\<close>

subsection \<open>C1: every input claim is in the output, at its path, unchanged\<close>

text \<open>
  Claim C1. For every well-formed monthly index, in both variants, every claim that the
  input holds under a month (and a token variant, in the dual-schema variant) for a
  recipient address is in the output at the path \<^verbatim>\<open>[address][month]\<close> (respectively
  \<^verbatim>\<open>[address][tokenVariant][month]\<close>). The output holds the claim record itself, so
  in particular its amount (\<open>rewards\<close> in the dual-schema variant) and its proof are those
  of the input. Well-formed means that the lists stand for objects at every level.
\<close>

theorem reshape_keeps_every_claim:
  "(MerkleTreesByMonth_ok byMonth \<and> (month, tree) \<in> set byMonth \<and> (user, claim) \<in> set (claims tree)
      \<longrightarrow> at_path (merkleTreesByUser byMonth) user month = Some claim
        \<and> map_option amount (at_path (merkleTreesByUser byMonth) user month) = Some (amount claim)
        \<and> map_option proof' (at_path (merkleTreesByUser byMonth) user month) = Some (proof' claim))
   \<and> (MerkleTreesByMonth_dual_ok byMonth2 \<and> (month, byToken) \<in> set byMonth2
        \<and> (tok, tree2) \<in> set byToken \<and> (user, recipient) \<in> set (recipients tree2)
      \<longrightarrow> at_path_dual (merkleTreesByUser_dual byMonth2) user tok month = Some recipient
        \<and> map_option rewards (at_path_dual (merkleTreesByUser_dual byMonth2) user tok month)
            = Some (rewards recipient)
        \<and> map_option r_proof (at_path_dual (merkleTreesByUser_dual byMonth2) user tok month)
            = Some (r_proof recipient))"
proof (intro conjI impI)
  assume a: "MerkleTreesByMonth_ok byMonth \<and> (month, tree) \<in> set byMonth
    \<and> (user, claim) \<in> set (claims tree)"
  then have ok: "MerkleTreesByMonth_ok byMonth" by simp
  from a ok_distinct [OF ok] have "map_of byMonth month = Some tree"
    and "map_of (claims tree) user = Some claim"
    by auto
  then show s: "at_path (merkleTreesByUser byMonth) user month = Some claim"
    by (simp add: merkleTreesByUser_is_own [OF ok] at_path_merkleTreesByUser [OF ok])
  show "map_option amount (at_path (merkleTreesByUser byMonth) user month) = Some (amount claim)"
    by (simp add: s)
  show "map_option proof' (at_path (merkleTreesByUser byMonth) user month) = Some (proof' claim)"
    by (simp add: s)
next
  assume a: "MerkleTreesByMonth_dual_ok byMonth2 \<and> (month, byToken) \<in> set byMonth2
        \<and> (tok, tree2) \<in> set byToken \<and> (user, recipient) \<in> set (recipients tree2)"
  then have ok: "MerkleTreesByMonth_dual_ok byMonth2" by simp
  from a have m: "(month, byToken) \<in> set byMonth2" and t: "(tok, tree2) \<in> set byToken"
    and r: "(user, recipient) \<in> set (recipients tree2)"
    by simp_all
  from ok_dual_distinct [OF ok] m have d1: "distinct (map fst byMonth2)" and "tokens_ok byToken"
    by auto
  with t have d2: "distinct (map fst byToken)" and d3: "distinct (map fst (recipients tree2))"
    by (auto simp: tokens_ok_def)
  have "map_of byMonth2 month = Some byToken"
    and "map_of byToken tok = Some tree2" and "map_of (recipients tree2) user = Some recipient"
    using d1 d2 d3 m t r by simp_all
  then show s: "at_path_dual (merkleTreesByUser_dual byMonth2) user tok month = Some recipient"
    by (simp add: merkleTreesByUser_dual_is_own [OF ok] at_path_dual_merkleTreesByUser_dual [OF ok])
  show "map_option rewards (at_path_dual (merkleTreesByUser_dual byMonth2) user tok month)
            = Some (rewards recipient)"
    by (simp add: s)
  show "map_option r_proof (at_path_dual (merkleTreesByUser_dual byMonth2) user tok month)
            = Some (r_proof recipient)"
    by (simp add: s)
qed

theorem reshape_keeps_every_claim_witness:
  "MerkleTreesByMonth_ok example_byMonth
   \<and> at_path (merkleTreesByUser example_byMonth) ''0xBBB'' ''2021-01'' = Some example_claim2
   \<and> MerkleTreesByMonth_dual_ok example_byMonth_dual
   \<and> at_path_dual (merkleTreesByUser_dual example_byMonth_dual) ''0xAAA'' ''xAUXO'' ''2021-01''
       = Some example_recipient2"
proof -
  let ?tree = "example_tree [(''0xAAA'', example_claim), (''0xBBB'', example_claim2)]"
  let ?tree2 = "example_tree_dual [(''0xAAA'', example_recipient2), (''0xBBB'', example_recipient)]"
  let ?byToken = "[(''veAUXO'', example_tree_dual [(''0xAAA'', example_recipient)]),
                   (''xAUXO'', ?tree2)]"
  have h1: "MerkleTreesByMonth_ok example_byMonth \<and> (''2021-01'', ?tree) \<in> set example_byMonth
              \<and> (''0xBBB'', example_claim2) \<in> set (claims ?tree)"
  proof (intro conjI)
    show "MerkleTreesByMonth_ok example_byMonth" by (rule example_byMonth_ok)
    show "(''2021-01'', ?tree) \<in> set example_byMonth" by (simp add: example_byMonth_def)
    show "(''0xBBB'', example_claim2) \<in> set (claims ?tree)" by (simp add: example_tree_def)
  qed
  have h2: "MerkleTreesByMonth_dual_ok example_byMonth_dual
              \<and> (''2021-01'', ?byToken) \<in> set example_byMonth_dual
              \<and> (''xAUXO'', ?tree2) \<in> set ?byToken
              \<and> (''0xAAA'', example_recipient2) \<in> set (recipients ?tree2)"
  proof (intro conjI)
    show "MerkleTreesByMonth_dual_ok example_byMonth_dual" by (rule example_byMonth_dual_ok)
    show "(''2021-01'', ?byToken) \<in> set example_byMonth_dual"
      by (simp add: example_byMonth_dual_def)
    show "(''xAUXO'', ?tree2) \<in> set ?byToken" by simp
    show "(''0xAAA'', example_recipient2) \<in> set (recipients ?tree2)"
      by (simp add: example_tree_dual_def)
  qed
  from reshape_keeps_every_claim [THEN conjunct1, THEN mp, OF h1]
    reshape_keeps_every_claim [THEN conjunct2, THEN mp, OF h2]
  show ?thesis
    by (simp add: example_byMonth_ok example_byMonth_dual_ok)
qed

subsection \<open>C2: the reshape as a pivot, and the names inherited from \<^verbatim>\<open>Object.prototype\<close>\<close>

text \<open>
  Claim C2 says that for every monthly index the reshape is a pivot: no address is a key of
  the output unless it holds a claim in the input, no claim sits in two month slots, and the
  output holds as many claims as the input. The source does not keep the count. The test
  \<^verbatim>\<open>if (!merkleTreesByUser[user])\<close> reads through the prototype chain: for a recipient key
  that is a member name of \<^verbatim>\<open>Object.prototype\<close>, such as \<^verbatim>\<open>constructor\<close>, it finds a function
  and creates no entry, and the assignment \<^verbatim>\<open>merkleTreesByUser[user][date] = claim\<close> puts the
  claim on that function. For the month \<^verbatim>\<open>2021-01\<close> whose file holds a claim under
  \<^verbatim>\<open>constructor\<close> and a claim under \<^verbatim>\<open>0xAAA\<close>, the builder returns the index with both
  claims, the reshape returns an index with the second claim only, and the run publishes
  that index: two claims in, one claim out. The comment above the loops in the source gives
  \<^verbatim>\<open>merkleTreesByUser['0x...1234']['2021-01'] => {...}\<close> as the result for a claim.
  The other parts of the claim hold on every input: a key of the output is a recipient key
  of the input, and a slot of the output holds only a claim of the input for that recipient
  and that month (\<open>reshape_holds_input_claims_only\<close>,
  \<open>reshape_dual_holds_input_claims_only\<close>). On lists that stand for objects the count
  holds too (\<open>reshape_pivot_on_objects\<close>, \<open>reshape_dual_pivot_on_objects\<close>).
\<close>

theorem claim_under_inherited_name_is_lost:
  "merkleTreesByMonth (example_parse_to example_tree_inherited) example_merkleTrees
     = Inr example_byMonth_inherited
   \<and> map_of (claims example_tree_inherited) ''constructor'' = Some example_claim
   \<and> (\<Sum>p\<leftarrow>example_byMonth_inherited. length (claims (snd p))) = 2
   \<and> merkleTreesByUser example_byMonth_inherited = [(''0xAAA'', [(''2021-01'', example_claim2)])]
   \<and> at_path (merkleTreesByUser example_byMonth_inherited) ''constructor'' ''2021-01'' = None
   \<and> count_claims (merkleTreesByUser example_byMonth_inherited) = 1
   \<and> try_block
        (example_env (example_client example_merkleTrees) (example_parse_to example_tree_inherited))
        example_remote
     = publish (example_client example_merkleTrees) ''auxo'' ''rewards'' ''main''
         (example_stringify [(''0xAAA'', [(''2021-01'', example_claim2)])]) example_remote"
proof -
  have b: "merkleTreesByMonth (example_parse_to example_tree_inherited) example_merkleTrees
     = Inr example_byMonth_inherited"
    by (simp add: builder_eval example_byMonth_inherited_def)
  have i: "map_of (claims example_tree_inherited) ''constructor'' = Some example_claim"
    and n: "(\<Sum>p\<leftarrow>example_byMonth_inherited. length (claims (snd p))) = 2"
    by (simp_all add: example_byMonth_inherited_def example_tree_inherited_def example_tree_def)
  have r: "merkleTreesByUser example_byMonth_inherited
             = [(''0xAAA'', [(''2021-01'', example_claim2)])]"
    by (simp add: reshape_eval example_byMonth_inherited_def example_tree_inherited_def
        example_tree_def)
  have t: "try_block
        (example_env (example_client example_merkleTrees) (example_parse_to example_tree_inherited))
        example_remote
     = publish (example_client example_merkleTrees) ''auxo'' ''rewards'' ''main''
         (example_stringify (merkleTreesByUser example_byMonth_inherited)) example_remote"
    by (simp add: run_defs b)
  from b i n t show ?thesis
    by (simp add: r at_path_def count_claims_def)
qed

subsection \<open>C3: the dual-schema builder and the recognized token files\<close>

text \<open>
  Claim C3 says that the dual-schema builder parses each recognized token file and places
  the result in the monthly index under the month and the token variant. The source does
  not do so: \<^verbatim>\<open>merkleTreesByMonth[date]['veAUXO'] = merkleTree\<close> is executed on an index
  that never received an entry for \<open>date\<close>, and throws (for a month named as a member of
  \<^verbatim>\<open>Object.prototype\<close> it stores the file on that member). On a tree with one month holding
  both token files the builder throws the \<^verbatim>\<open>TypeError\<close> of that assignment at the first
  file, and the run ends in failure without a call to the write interface. On no tree
  does the builder return an index with an entry (\<open>merkleTreesByMonth_dual_never_fills\<close>).
\<close>

theorem dual_builder_throws_on_recognized_file:
  "merkleTreesByMonth_dual example_parse_dual example_merkleTrees_dual
     = Inl (TypeError_set ''undefined'' ''veAUXO'')
   \<and> run_dual (example_env (example_client example_merkleTrees_dual) example_parse_dual)
        example_remote
     = (Failed (message (TypeError_set ''undefined'' ''veAUXO'')), example_remote)"
proof -
  have b: "merkleTreesByMonth_dual example_parse_dual example_merkleTrees_dual
     = Inl (TypeError_set ''undefined'' ''veAUXO'')"
    by (simp add: merkleTreesByMonth_dual_def example_merkleTrees_dual_def entry_files_def
        token_file_def example_parse_dual_def Object_prototype_names_def)
  then show ?thesis
    by (simp add: run_defs TypeError_set_def)
qed

subsection \<open>C4: the branch moves in the last step only\<close>

text \<open>
  Claim C4. For every run of either variant: if one of the five publish steps fails, every
  reference is as it was before the run; a reference moves only when \<^verbatim>\<open>updateRef\<close> is the
  fifth call after four calls that succeeded; and a run whose \<^verbatim>\<open>getRef\<close> fails makes no
  other call, so no blob, tree or commit is created.
\<close>

theorem branch_moves_only_in_last_step:
  "(try_block env w = (r, w') \<longrightarrow> publish_discipline w r w')
   \<and> (try_block_dual env2 w2 = (r2, w2') \<longrightarrow> publish_discipline w2 r2 w2')"
  by (simp add: try_block_def try_block_dual_def publish_discipline_run_body)

theorem branch_moves_only_in_last_step_witness:
  "try_block (example_env (example_client example_merkleTrees) example_parse)
       example_remote_without_branch
     = (Inl (Error ''Not Found''),
        \<lparr>refs = [], log = [(GetRef ''auxo'' ''rewards'' ''heads/main'', Inl (Error ''Not Found''))]\<rparr>)
   \<and> publish_discipline example_remote_without_branch (Inl (Error ''Not Found''))
        \<lparr>refs = [], log = [(GetRef ''auxo'' ''rewards'' ''heads/main'', Inl (Error ''Not Found''))]\<rparr>
   \<and> publish_discipline example_remote (Inr ())
        (snd (try_block_dual (example_env (example_client []) example_parse_dual) example_remote))"
proof -
  have t1: "try_block (example_env (example_client example_merkleTrees) example_parse)
       example_remote_without_branch
     = (Inl (Error ''Not Found''),
        \<lparr>refs = [], log = [(GetRef ''auxo'' ''rewards'' ''heads/main'', Inl (Error ''Not Found''))]\<rparr>)"
    by (simp add: run_defs builder_eval publish_eval)
  have t2: "try_block_dual (example_env (example_client []) example_parse_dual) example_remote
     = (Inr (), snd (try_block_dual (example_env (example_client []) example_parse_dual)
                      example_remote))"
    by (simp add: run_defs builder_eval publish_eval)
  from branch_moves_only_in_last_step [THEN conjunct1, THEN mp, OF t1]
    branch_moves_only_in_last_step [THEN conjunct2, THEN mp, OF t2] t1
  show ?thesis by simp
qed

subsection \<open>C5: what the catch clause reports\<close>

text \<open>
  Claim C5 says that a caught value that is not an error object is still reported as a
  failure, without a message. The \<^verbatim>\<open>catch\<close> clause calls \<^verbatim>\<open>core.setFailed\<close> under
  \<^verbatim>\<open>if (error instanceof Error)\<close> only: a run whose tree query rejects with a value that
  is not an instance of \<^verbatim>\<open>Error\<close> ends without reporting a failure.
\<close>

theorem non_Error_value_is_not_reported:
  "try_block (example_env (example_client_rejecting NonError) example_parse) example_remote
     = (Inl NonError, example_remote)
   \<and> run (example_env (example_client_rejecting NonError) example_parse) example_remote
     = (Not_failed, example_remote)"
  by (simp add: run_defs)

text \<open>
  Claim C5 as amended. For every value thrown in the \<^verbatim>\<open>try\<close> block of either variant: if
  it is an instance of \<^verbatim>\<open>Error\<close>, the run reports failure with the message of that error;
  otherwise the run reports no failure.
\<close>

theorem catch_reports_instances_of_Error_only:
  "(try_block env w = (Inl error, w') \<longrightarrow>
      run env w = ((case error of Error m \<Rightarrow> Failed m | NonError \<Rightarrow> Not_failed), w'))
   \<and> (try_block_dual env2 w2 = (Inl error2, w2') \<longrightarrow>
      run_dual env2 w2 = ((case error2 of Error m \<Rightarrow> Failed m | NonError \<Rightarrow> Not_failed), w2'))"
  by (auto simp: run_def run_dual_def finish_def split: thrown.splits)

theorem catch_reports_instances_of_Error_only_witness:
  "run (example_env (example_client_rejecting (Error ''Bad credentials'')) example_parse)
       example_remote
     = (Failed ''Bad credentials'', example_remote)
   \<and> run_dual (example_env (example_client_rejecting NonError) example_parse_dual)
       example_remote
     = (Not_failed, example_remote)"
proof -
  have t1: "try_block (example_env (example_client_rejecting (Error ''Bad credentials''))
              example_parse) example_remote = (Inl (Error ''Bad credentials''), example_remote)"
    by (simp add: run_defs)
  have t2: "try_block_dual (example_env (example_client_rejecting NonError) example_parse_dual)
              example_remote = (Inl NonError, example_remote)"
    by (simp add: run_defs)
  from catch_reports_instances_of_Error_only [THEN conjunct1, THEN mp, OF t1]
    catch_reports_instances_of_Error_only [THEN conjunct2, THEN mp, OF t2]
  show ?thesis by simp
qed

subsection \<open>C6: the reshape and the order of the keys\<close>

text \<open>
  Claim C6 says that for every monthly index the output of the reshape, read as a mapping,
  does not depend on the order in which the keys of the input are listed, and that
  reshaping the same input again gives an equal output. The source does not ensure this.
  A recipient key \<^verbatim>\<open>__proto__\<close> is an own property of the object that \<^verbatim>\<open>JSON.parse\<close> returns
  and is listed by \<^verbatim>\<open>Object.entries\<close>. In the loop \<^verbatim>\<open>merkleTreesByUser['__proto__']\<close> reads
  \<^verbatim>\<open>Object.prototype\<close>, so \<^verbatim>\<open>merkleTreesByUser['__proto__'][date] = claim\<close> stores the claim
  in \<^verbatim>\<open>Object.prototype\<close> under the label of the month, where every later test
  \<^verbatim>\<open>!merkleTreesByUser[user]\<close> finds it. Take the month \<^verbatim>\<open>2021-01\<close> with a claim under
  \<^verbatim>\<open>__proto__\<close> and a claim under the recipient key \<^verbatim>\<open>2021-01\<close>. With the keys in this order
  the second claim is put on the first and the output is empty; with the keys in the other
  order the output holds the second claim. The two inputs stand for the same mapping and
  both come out of the builder. A second pass over the second input, which starts from
  \<^verbatim>\<open>Object.prototype\<close> as the first pass left it, returns the empty index as well. The read
  through the prototype chain is the one that loses the claim of C2. On lists that stand for
  objects the output does not depend on the order of the keys
  (\<open>reshape_order_on_objects\<close>, \<open>reshape_dual_order_on_objects\<close>).
\<close>

theorem reshape_depends_on_key_order:
  "MerkleTreesByMonth_mapping example_byMonth_proto
     = MerkleTreesByMonth_mapping example_byMonth_proto_reordered
   \<and> merkleTreesByMonth (example_parse_to example_tree_proto) example_merkleTrees
       = Inr example_byMonth_proto
   \<and> merkleTreesByMonth (example_parse_to example_tree_proto_reordered) example_merkleTrees
       = Inr example_byMonth_proto_reordered
   \<and> merkleTreesByUser example_byMonth_proto = []
   \<and> merkleTreesByUser example_byMonth_proto_reordered
       = [(''2021-01'', [(''2021-01'', example_claim2)])]
   \<and> MerkleTreesByUser_mapping (merkleTreesByUser example_byMonth_proto)
       \<noteq> MerkleTreesByUser_mapping (merkleTreesByUser example_byMonth_proto_reordered)
   \<and> fst (months_loop
            ([], snd (months_loop ([], Object_prototype_names) example_byMonth_proto_reordered))
            example_byMonth_proto_reordered) = []"
proof -
  have m: "MerkleTreesByMonth_mapping example_byMonth_proto
     = MerkleTreesByMonth_mapping example_byMonth_proto_reordered"
    by (auto simp: fun_eq_iff MerkleTreesByMonth_mapping_def example_byMonth_proto_def
        example_byMonth_proto_reordered_def example_tree_proto_def
        example_tree_proto_reordered_def example_tree_def)
  have b1: "merkleTreesByMonth (example_parse_to example_tree_proto) example_merkleTrees
       = Inr example_byMonth_proto"
    by (simp add: builder_eval example_byMonth_proto_def)
  have b2: "merkleTreesByMonth (example_parse_to example_tree_proto_reordered) example_merkleTrees
       = Inr example_byMonth_proto_reordered"
    by (simp add: builder_eval example_byMonth_proto_reordered_def)
  have r1: "merkleTreesByUser example_byMonth_proto = []"
    by (simp add: reshape_eval example_byMonth_proto_def example_tree_proto_def
        example_tree_def)
  have r2: "merkleTreesByUser example_byMonth_proto_reordered
       = [(''2021-01'', [(''2021-01'', example_claim2)])]"
    by (simp add: reshape_eval example_byMonth_proto_reordered_def
        example_tree_proto_reordered_def example_tree_def)
  have d: "MerkleTreesByUser_mapping (merkleTreesByUser example_byMonth_proto) ''2021-01''
       \<noteq> MerkleTreesByUser_mapping (merkleTreesByUser example_byMonth_proto_reordered) ''2021-01''"
    by (simp add: r1 r2 MerkleTreesByUser_mapping_def)
  then have n: "MerkleTreesByUser_mapping (merkleTreesByUser example_byMonth_proto)
       \<noteq> MerkleTreesByUser_mapping (merkleTreesByUser example_byMonth_proto_reordered)"
    by metis
  have s: "fst (months_loop
            ([], snd (months_loop ([], Object_prototype_names) example_byMonth_proto_reordered))
            example_byMonth_proto_reordered) = []"
    by (simp add: reshape_eval example_byMonth_proto_reordered_def
        example_tree_proto_reordered_def example_tree_def)
  from m b1 b2 r1 r2 n s show ?thesis by simp
qed

subsection \<open>C7: files of unrecognized name (single-schema variant)\<close>

text \<open>
  Claim C7. In the single-schema variant a directory none of whose files is named
  \<^verbatim>\<open>merkle-tree.json\<close> is passed over: the builder goes on as if the directory were not
  there. Removing the files of unrecognized name from a fetched tree changes neither the
  index that the builder returns nor the error that it throws, so these files raise no error
  and leave no trace. Every month of the index comes from a directory that holds a
  recognized file.
\<close>

theorem unrecognized_files_are_skipped:
  "(entry_object entry = Object_entries els \<and> (\<forall>el \<in> set els. file_name el \<noteq> ''merkle-tree.json'')
      \<longrightarrow> entries_loop parse byMonth (entry # rest) = entries_loop parse byMonth rest)
   \<and> merkleTreesByMonth parse (map recognized_only merkleTrees) = merkleTreesByMonth parse merkleTrees
   \<and> (merkleTreesByMonth parse merkleTrees = Inr byMonth' \<and> date \<in> fst ` set byMonth'
      \<longrightarrow> (\<exists>entry \<in> set merkleTrees. \<exists>els. entry_name entry = date
             \<and> entry_object entry = Object_entries els
             \<and> (\<exists>el \<in> set els. file_name el = ''merkle-tree.json'')))"
proof (intro conjI impI)
  assume "entry_object entry = Object_entries els
    \<and> (\<forall>el \<in> set els. file_name el \<noteq> ''merkle-tree.json'')"
  then show "entries_loop parse byMonth (entry # rest) = entries_loop parse byMonth rest"
    by (simp add: entry_files_def month_files_unrecognized)
next
  show "merkleTreesByMonth parse (map recognized_only merkleTrees) = merkleTreesByMonth parse merkleTrees"
    by (simp add: merkleTreesByMonth_def entries_loop_recognized_only)
next
  assume "merkleTreesByMonth parse merkleTrees = Inr byMonth' \<and> date \<in> fst ` set byMonth'"
  then have "entries_loop parse [] merkleTrees = Inr byMonth'" and "date \<in> fst ` set byMonth'"
    by (simp_all add: merkleTreesByMonth_def)
  from entries_loop_keys [OF this]
  show "\<exists>entry \<in> set merkleTrees. \<exists>els. entry_name entry = date
             \<and> entry_object entry = Object_entries els
             \<and> (\<exists>el \<in> set els. file_name el = ''merkle-tree.json'')"
    by simp
qed

theorem unrecognized_files_are_skipped_witness:
  "merkleTreesByMonth example_parse example_merkleTrees
     = Inr [(''2021-01'', example_tree [(''0xAAA'', example_claim)])]
   \<and> merkleTreesByMonth example_parse (map recognized_only example_merkleTrees)
     = Inr [(''2021-01'', example_tree [(''0xAAA'', example_claim)])]
   \<and> entries_loop example_parse []
        [\<lparr>entry_name = ''2021-02'', entry_type = ''tree'',
          entry_object = Object_entries [\<lparr>file_name = ''draft.json'', file_text = ''feb''\<rparr>]\<rparr>]
     = Inr []
   \<and> (\<exists>entry \<in> set example_merkleTrees. \<exists>els. entry_name entry = ''2021-01''
         \<and> entry_object entry = Object_entries els
         \<and> (\<exists>el \<in> set els. file_name el = ''merkle-tree.json''))"
proof -
  let ?entry = "\<lparr>entry_name = ''2021-02'', entry_type = ''tree'',
          entry_object = Object_entries [\<lparr>file_name = ''draft.json'', file_text = ''feb''\<rparr>]\<rparr>"
  let ?byMonth = "[(''2021-01'', example_tree [(''0xAAA'', example_claim)])]"
  note u = unrecognized_files_are_skipped
    [of ?entry "[\<lparr>file_name = ''draft.json'', file_text = ''feb''\<rparr>]" example_parse "[]" "[]"
        example_merkleTrees ?byMonth "''2021-01''"]
  have h1: "entry_object ?entry = Object_entries [\<lparr>file_name = ''draft.json'', file_text = ''feb''\<rparr>]
      \<and> (\<forall>el \<in> set [\<lparr>file_name = ''draft.json'', file_text = ''feb''\<rparr>].
            file_name el \<noteq> ''merkle-tree.json'')"
    by simp
  have h2: "merkleTreesByMonth example_parse example_merkleTrees = Inr ?byMonth"
    by (simp add: builder_eval)
  have h3: "''2021-01'' \<in> fst ` set ?byMonth" by simp
  from u [THEN conjunct1, THEN mp, OF h1] u [THEN conjunct2, THEN conjunct1]
    u [THEN conjunct2, THEN conjunct2, THEN mp, OF conjI [OF h2 h3]] h2
  show ?thesis by simp
qed

subsection \<open>C8: a tree without entries\<close>

text \<open>
  Claim C8. When the tree query returns no entry, the builder returns the empty index, the
  reshape returns the empty index, and, the branch existing and no call failing, the run
  makes the five calls: the blob holds the serialization of the empty index, the tree
  holds the blob, the commit holds the tree, and the branch is moved to the commit. This
  holds in both variants.
\<close>

theorem empty_tree_is_published:
  "(configured env owner repo branchInput client \<and> graphql client owner repo = Inr []
      \<and> (\<forall>call. fault client call = None)
      \<and> map_of (refs w) (owner, repo, ''heads/'' @ branchInput) = Some tip
    \<longrightarrow> merkleTreesByMonth (JSON_parse env) [] = Inr []
      \<and> merkleTreesByUser ([] :: 'n MerkleTreesByMonth) = []
      \<and> run env w =
          (Not_failed, published client owner repo branchInput (JSON_stringify env []) tip w))
   \<and> (configured env2 owner repo branchInput client \<and> graphql client owner repo = Inr []
      \<and> (\<forall>call. fault client call = None)
      \<and> map_of (refs w) (owner, repo, ''heads/'' @ branchInput) = Some tip
    \<longrightarrow> merkleTreesByMonth_dual (JSON_parse env2) [] = Inr []
      \<and> merkleTreesByUser_dual ([] :: 'm MerkleTreesByMonth_dual) = []
      \<and> run_dual env2 w =
          (Not_failed, published client owner repo branchInput (JSON_stringify env2 []) tip w))"
  for env :: "('n MerkleTree, 'n MerkleTreesByUser) env"
  and env2 :: "('m MerkleTree_dual, 'm MerkleTreesByUser_dual) env"
proof (intro conjI impI)
  assume h: "configured env owner repo branchInput client \<and> graphql client owner repo = Inr []
      \<and> (\<forall>call. fault client call = None)
      \<and> map_of (refs w) (owner, repo, ''heads/'' @ branchInput) = Some tip"
  show b: "merkleTreesByMonth (JSON_parse env) [] = Inr []"
    by (simp add: merkleTreesByMonth_def)
  show r: "merkleTreesByUser ([] :: 'n MerkleTreesByMonth) = []"
    by (simp add: merkleTreesByUser_def)
  from h have c: "configured env owner repo branchInput client"
    and g: "graphql client owner repo = Inr []" by simp_all
  have "try_block env w =
      publish client owner repo branchInput (JSON_stringify env (merkleTreesByUser [])) w"
    unfolding try_block_def
    by (rule run_body_configured_publishes [where build = merkleTreesByMonth, OF c g b])
  with h show "run env w =
          (Not_failed, published client owner repo branchInput (JSON_stringify env []) tip w)"
    by (simp add: run_def finish_def r publish_published)
next
  assume h: "configured env2 owner repo branchInput client \<and> graphql client owner repo = Inr []
      \<and> (\<forall>call. fault client call = None)
      \<and> map_of (refs w) (owner, repo, ''heads/'' @ branchInput) = Some tip"
  show b: "merkleTreesByMonth_dual (JSON_parse env2) [] = Inr []"
    by (simp add: merkleTreesByMonth_dual_def)
  show r: "merkleTreesByUser_dual ([] :: 'm MerkleTreesByMonth_dual) = []"
    by (simp add: merkleTreesByUser_dual_def)
  from h have c: "configured env2 owner repo branchInput client"
    and g: "graphql client owner repo = Inr []" by simp_all
  have "try_block_dual env2 w =
      publish client owner repo branchInput (JSON_stringify env2 (merkleTreesByUser_dual [])) w"
    unfolding try_block_dual_def
    by (rule run_body_configured_publishes [where build = merkleTreesByMonth_dual, OF c g b])
  with h show "run_dual env2 w =
          (Not_failed, published client owner repo branchInput (JSON_stringify env2 []) tip w)"
    by (simp add: run_dual_def finish_def r publish_published)
qed

theorem empty_tree_is_published_witness:
  "run (example_env (example_client []) example_parse) example_remote
     = (Not_failed,
        \<lparr>refs = [((''auxo'', ''rewards'', ''heads/main''), ''c0de'')],
         log =
          [(GetRef ''auxo'' ''rewards'' ''heads/main'', Inr ''c0ffee''),
           (CreateBlob ''auxo'' ''rewards'' ''{}'' ''utf-8'', Inr ''b10b''),
           (CreateTree ''auxo'' ''rewards''
              [\<lparr>path = ''reports/merkle-trees-by-user.json'', mode = ''100644'',
                type' = ''blob'', sha = ''b10b''\<rparr>] ''c0ffee'', Inr ''7ee0''),
           (CreateCommit ''auxo'' ''rewards'' ''**GENERATED** Arrange Rewards by User'' ''7ee0''
              [''c0ffee''], Inr ''c0de''),
           (UpdateRef ''auxo'' ''rewards'' ''heads/main'' ''c0de'', Inr ''c0de'')]\<rparr>)
   \<and> run_dual (example_env (example_client []) example_parse_dual) example_remote
     = run (example_env (example_client []) example_parse) example_remote"
proof -
  have c1: "configured (example_env (example_client []) example_parse)
              ''auxo'' ''rewards'' ''main'' (example_client [])"
    by (simp add: configured_def example_env_def example_inputs_def)
  have c2: "configured (example_env (example_client []) example_parse_dual)
              ''auxo'' ''rewards'' ''main'' (example_client [])"
    by (simp add: configured_def example_env_def example_inputs_def)
  have g: "graphql (example_client []) ''auxo'' ''rewards'' = Inr []"
    and f: "\<forall>call. fault (example_client []) call = None"
    and t: "map_of (refs example_remote) (''auxo'', ''rewards'', ''heads/'' @ ''main'') = Some ''c0ffee''"
    by (simp_all add: example_client_def example_remote_def)
  from empty_tree_is_published [THEN conjunct1, THEN mp, OF conjI [OF c1 conjI [OF g conjI [OF f t]]]]
    empty_tree_is_published [THEN conjunct2, THEN mp, OF conjI [OF c2 conjI [OF g conjI [OF f t]]]]
  show ?thesis
    by (simp add: published_def Let_def example_env_def example_stringify_def example_client_def
        example_sha_def example_remote_def)
qed

subsection \<open>C9: the commit\<close>

text \<open>
  Claim C9. Every run of either variant whose \<^verbatim>\<open>try\<close> block completes has created exactly
  one commit, with the literal message \<^verbatim>\<open>**GENERATED** Arrange Rewards by User\<close> and with
  one parent, the tip of the branch before the run as returned by \<^verbatim>\<open>getRef\<close>.
\<close>

theorem commit_message_and_parent:
  "(try_block env w = (Inr (), w') \<longrightarrow> single_fixed_commit w w')
   \<and> (try_block_dual env2 w2 = (Inr (), w2') \<longrightarrow> single_fixed_commit w2 w2')"
  by (simp add: try_block_def try_block_dual_def single_fixed_commit_run_body)

theorem commit_message_and_parent_witness:
  "single_fixed_commit example_remote
     (snd (try_block (example_env (example_client example_merkleTrees) example_parse)
             example_remote))
   \<and> fst (try_block (example_env (example_client example_merkleTrees) example_parse)
             example_remote) = Inr ()
   \<and> single_fixed_commit example_remote
     (snd (try_block_dual (example_env (example_client []) example_parse_dual) example_remote))"
proof -
  have f1: "fst (try_block (example_env (example_client example_merkleTrees) example_parse)
       example_remote) = Inr ()"
    by (simp add: run_defs builder_eval publish_eval)
  then have t1: "try_block (example_env (example_client example_merkleTrees) example_parse)
       example_remote
     = (Inr (), snd (try_block (example_env (example_client example_merkleTrees) example_parse)
                       example_remote))"
    by (simp add: prod_eq_iff)
  have t2: "try_block_dual (example_env (example_client []) example_parse_dual) example_remote
     = (Inr (), snd (try_block_dual (example_env (example_client []) example_parse_dual)
                      example_remote))"
    by (simp add: run_defs builder_eval publish_eval)
  from commit_message_and_parent [THEN conjunct1, THEN mp, OF t1]
    commit_message_and_parent [THEN conjunct2, THEN mp, OF t2] f1
  show ?thesis by simp
qed

subsection \<open>C10: a top-level entry without nested entries\<close>

text \<open>
  Claim C10. When the fetched tree has a top-level entry whose \<^verbatim>\<open>object\<close> carries no
  nested entries (a file directly under the root directory, or a submodule), the builder of
  either variant throws; when the entries before it were processed without error, what it
  throws is the \<^verbatim>\<open>TypeError\<close> of reading through the missing list. The run then leaves the
  \<^verbatim>\<open>try\<close> block through the \<^verbatim>\<open>catch\<close> clause without a call to the write interface.
\<close>

theorem entry_without_entries_aborts_run:
  "(entry_object entry = Object_null \<or> entry_object entry = Object_without_entries) \<longrightarrow>
     (\<exists>e. merkleTreesByMonth parse (pre @ entry # post) = Inl e)
   \<and> (\<forall>byMonth. merkleTreesByMonth parse pre = Inr byMonth \<longrightarrow>
         merkleTreesByMonth parse (pre @ entry # post) = Inl (missing_entries_error entry))
   \<and> (\<exists>e. merkleTreesByMonth_dual parse2 (pre @ entry # post) = Inl e)
   \<and> (\<forall>byMonth. merkleTreesByMonth_dual parse2 pre = Inr byMonth \<longrightarrow>
         merkleTreesByMonth_dual parse2 (pre @ entry # post) = Inl (missing_entries_error entry))
   \<and> (configured env owner repo branchInput client
        \<and> graphql client owner repo = Inr (pre @ entry # post)
      \<longrightarrow> (\<exists>e. try_block env w = (Inl e, w) \<and> run env w = (catch_clause e, w)))
   \<and> (configured env2 owner repo branchInput client
        \<and> graphql client owner repo = Inr (pre @ entry # post)
      \<longrightarrow> (\<exists>e. try_block_dual env2 w = (Inl e, w) \<and> run_dual env2 w = (catch_clause e, w)))"
proof (intro impI conjI allI)
  assume m: "entry_object entry = Object_null \<or> entry_object entry = Object_without_entries"
  show "\<exists>e. merkleTreesByMonth parse (pre @ entry # post) = Inl e"
    by (rule builder_throws(1) [OF m])
  show "merkleTreesByMonth parse (pre @ entry # post) = Inl (missing_entries_error entry)"
    if "merkleTreesByMonth parse pre = Inr byMonth" for byMonth
    using that by (rule builder_throws(2) [OF m])
  show "\<exists>e. merkleTreesByMonth_dual parse2 (pre @ entry # post) = Inl e"
    by (rule builder_dual_throws(1) [OF m])
  show "merkleTreesByMonth_dual parse2 (pre @ entry # post) = Inl (missing_entries_error entry)"
    if "merkleTreesByMonth_dual parse2 pre = Inr byMonth" for byMonth
    using that by (rule builder_dual_throws(2) [OF m])
  show "\<exists>e. try_block env w = (Inl e, w) \<and> run env w = (catch_clause e, w)"
    if c: "configured env owner repo branchInput client
        \<and> graphql client owner repo = Inr (pre @ entry # post)"
  proof -
    from c have c1: "configured env owner repo branchInput client"
      and g: "graphql client owner repo = Inr (pre @ entry # post)" by simp_all
    from builder_throws(1) [OF m] obtain e
      where "merkleTreesByMonth (JSON_parse env) (pre @ entry # post) = Inl e" by blast
    then have "try_block env w = (Inl e, w)"
      unfolding try_block_def
      by (rule run_body_configured_throws [where build = merkleTreesByMonth, OF c1 g])
    then show ?thesis by (simp add: run_def finish_def)
  qed
  show "\<exists>e. try_block_dual env2 w = (Inl e, w) \<and> run_dual env2 w = (catch_clause e, w)"
    if c: "configured env2 owner repo branchInput client
        \<and> graphql client owner repo = Inr (pre @ entry # post)"
  proof -
    from c have c1: "configured env2 owner repo branchInput client"
      and g: "graphql client owner repo = Inr (pre @ entry # post)" by simp_all
    from builder_dual_throws(1) [OF m] obtain e
      where "merkleTreesByMonth_dual (JSON_parse env2) (pre @ entry # post) = Inl e" by blast
    then have "try_block_dual env2 w = (Inl e, w)"
      unfolding try_block_dual_def
      by (rule run_body_configured_throws [where build = merkleTreesByMonth_dual, OF c1 g])
    then show ?thesis by (simp add: run_dual_def finish_def)
  qed
qed

theorem entry_without_entries_aborts_run_witness:
  "merkleTreesByMonth example_parse example_file_at_root = Inl (TypeError_read ''undefined'' ''map'')
   \<and> merkleTreesByMonth_dual example_parse_dual example_file_at_root
       = Inl (TypeError_read ''undefined'' ''map'')
   \<and> (\<exists>e. run (example_env (example_client example_file_at_root) example_parse) example_remote
            = (catch_clause e, example_remote))
   \<and> (\<exists>e. run_dual (example_env (example_client example_file_at_root) example_parse_dual)
              example_remote
            = (catch_clause e, example_remote))"
proof -
  let ?entry = "\<lparr>entry_name = ''README.md'', entry_type = ''blob'',
                  entry_object = Object_without_entries\<rparr>"
  have m: "entry_object ?entry = Object_null \<or> entry_object ?entry = Object_without_entries"
    by simp
  have c1: "configured (example_env (example_client example_file_at_root) example_parse)
              ''auxo'' ''rewards'' ''main'' (example_client example_file_at_root)
            \<and> graphql (example_client example_file_at_root) ''auxo'' ''rewards''
                = Inr ([] @ ?entry # [])"
    by (simp add: configured_def example_env_def example_inputs_def example_client_def
        example_file_at_root_def)
  have c2: "configured (example_env (example_client example_file_at_root) example_parse_dual)
              ''auxo'' ''rewards'' ''main'' (example_client example_file_at_root)
            \<and> graphql (example_client example_file_at_root) ''auxo'' ''rewards''
                = Inr ([] @ ?entry # [])"
    by (simp add: configured_def example_env_def example_inputs_def example_client_def
        example_file_at_root_def)
  note a = entry_without_entries_aborts_run
    [of ?entry example_parse "[]" "[]" example_parse_dual
        "example_env (example_client example_file_at_root) example_parse"
        "''auxo''" "''rewards''" "''main''" "example_client example_file_at_root" example_remote
        "example_env (example_client example_file_at_root) example_parse_dual",
     THEN mp, OF m]
  have p1: "merkleTreesByMonth example_parse [] = Inr []"
    and p2: "merkleTreesByMonth_dual example_parse_dual [] = Inr []"
    by (simp_all add: merkleTreesByMonth_def merkleTreesByMonth_dual_def)
  from a p1 p2 c1 c2 show ?thesis
    by (simp add: missing_entries_error_def example_file_at_root_def) blast
qed

end
